theory Spec2Isabelle
  imports Complex_Main "HOL-Library.Log_Nat"
begin

section \<open>Strings and the character tables of the interpreter\<close>

text \<open>
  A Python \<open>str\<close> is a sequence of Unicode code points, so a string of the program is a
  list of natural numbers (its code points). Isabelle's own \<open>string\<close> has 8-bit characters
  and cannot hold the Cyrillic letters the patterns mention; it is used only to write
  ASCII literals, which \<open>lit\<close> converts.
\<close>

type_synonym pystr = "nat list"

definition lit :: "string \<Rightarrow> pystr" where
  "lit cs = map of_char cs"

text \<open>
  \<open>Py_UNICODE_TODECIMAL\<close>: the characters with a decimal digit value (general category Nd)
  come in runs of ten, one run per script, starting at the script's digit zero. The table
  is the one of Unicode 14.0 (CPython 3.11).
\<close>

definition decimal_zeros :: "nat list" where
  "decimal_zeros =
    [48, 1632, 1776, 1984, 2406, 2534, 2662, 2790, 2918, 3046, 3174, 3302, 3430, 3558,
     3664, 3792, 3872, 4160, 4240, 6112, 6160, 6470, 6608, 6784, 6800, 6992, 7088, 7232,
     7248, 42528, 43216, 43264, 43472, 43504, 43600, 44016, 65296, 66720, 68912, 69734,
     69872, 69942, 70096, 70384, 70736, 70864, 71248, 71360, 71472, 71904, 72016, 72784,
     73040, 73120, 92768, 92864, 93008, 120782, 120792, 120802, 120812, 120822, 123200,
     123632, 125264, 130032]"

definition todecimal :: "nat \<Rightarrow> nat option" where
  "todecimal c =
     (case List.find (\<lambda>z. z \<le> c \<and> c < z + 10) decimal_zeros of
        None \<Rightarrow> None
      | Some z \<Rightarrow> Some (c - z))"

definition isdecimal :: "nat \<Rightarrow> bool" where
  "isdecimal c = (todecimal c \<noteq> None)"

text \<open>\<open>Py_UNICODE_ISSPACE\<close>: the whitespace characters of \<open>str.isspace\<close> and of \<open>\s\<close>.\<close>

definition unicode_spaces :: "nat list" where
  "unicode_spaces =
    [9, 10, 11, 12, 13, 28, 29, 30, 31, 32, 133, 160, 5760, 8192, 8193, 8194, 8195, 8196,
     8197, 8198, 8199, 8200, 8201, 8202, 8232, 8233, 8239, 8287, 12288]"

definition isspace :: "nat \<Rightarrow> bool" where
  "isspace c = (c \<in> set unicode_spaces)"

section \<open>Regular expressions: the fragment of \<open>re\<close> the validators use\<close>

text \<open>
  The patterns of the validators, as \<open>sre_parse\<close> reads them, are sequences of
  \<open>AT_BEGINNING\<close>, \<open>AT_END\<close>, literals, character sets, greedy repetitions of a
  character set (\<open>{n}\<close> is \<open>MAX_REPEAT n n\<close>, \<open>+\<close> is \<open>MAX_REPEAT 1 MAXREPEAT\<close>) and one
  capturing group. No flag is given, so \<open>^\<close> matches only at the start of the string,
  \<open>$\<close> matches at the end of the string and also just before a newline that is its last
  character, and \<open>\d\<close>, \<open>\s\<close> are the Unicode categories.
\<close>

datatype category = CATEGORY_DIGIT | CATEGORY_SPACE

datatype set_item = LITERAL nat | RANGE nat nat | CATEGORY category

datatype node =
    AT_BEGINNING
  | AT_END
  | LIT nat
  | IN "set_item list"
  | MAX_REPEAT nat "nat option" "set_item list"
  | SUBPATTERN "node list"

fun in_category :: "category \<Rightarrow> nat \<Rightarrow> bool" where
  "in_category CATEGORY_DIGIT c = isdecimal c"
| "in_category CATEGORY_SPACE c = isspace c"

fun item_matches :: "set_item \<Rightarrow> nat \<Rightarrow> bool" where
  "item_matches (LITERAL l) c = (c = l)"
| "item_matches (RANGE lo hi) c = (lo \<le> c \<and> c \<le> hi)"
| "item_matches (CATEGORY k) c = in_category k c"

definition in_set :: "set_item list \<Rightarrow> nat \<Rightarrow> bool" where
  "in_set items c = list_ex (\<lambda>i. item_matches i c) items"

fun dec_max :: "nat option \<Rightarrow> nat option" where
  "dec_max None = None"
| "dec_max (Some n) = Some (n - 1)"

text \<open>
  \<open>sre_match p pos rest\<close>: the pattern \<open>p\<close> matches at the position \<open>pos\<close> of the subject
  string, of which \<open>rest\<close> is what lies from \<open>pos\<close> on. The engine of \<open>re\<close> backtracks
  over the repetitions (longest first) until the rest of the pattern matches; only
  whether a match exists matters to the validators, which test the match object for
  truth.
\<close>

function sre_match :: "node list \<Rightarrow> nat \<Rightarrow> pystr \<Rightarrow> bool" where
  "sre_match [] pos rest = True"
| "sre_match (AT_BEGINNING # p) pos rest = (pos = 0 \<and> sre_match p pos rest)"
| "sre_match (AT_END # p) pos rest = ((rest = [] \<or> rest = [10]) \<and> sre_match p pos rest)"
| "sre_match (LIT l # p) pos [] = False"
| "sre_match (LIT l # p) pos (c # rest) = (c = l \<and> sre_match p (Suc pos) rest)"
| "sre_match (IN items # p) pos [] = False"
| "sre_match (IN items # p) pos (c # rest) = (in_set items c \<and> sre_match p (Suc pos) rest)"
| "sre_match (MAX_REPEAT (Suc lo) hi items # p) pos [] = False"
| "sre_match (MAX_REPEAT (Suc lo) hi items # p) pos (c # rest) =
     (in_set items c \<and> sre_match (MAX_REPEAT lo (dec_max hi) items # p) (Suc pos) rest)"
| "sre_match (MAX_REPEAT 0 hi items # p) pos [] = sre_match p pos []"
| "sre_match (MAX_REPEAT 0 hi items # p) pos (c # rest) =
     ((hi \<noteq> Some 0 \<and> in_set items c
         \<and> sre_match (MAX_REPEAT 0 (dec_max hi) items # p) (Suc pos) rest)
      \<or> sre_match p pos (c # rest))"
| "sre_match (SUBPATTERN q # p) pos rest = sre_match (q @ p) pos rest"
  by pat_completeness auto
termination
  by (relation "measure (\<lambda>(p, pos, rest). size_list size p + length rest)") auto

text \<open>\<open>re.match(pattern, string)\<close>, read as a truth value: a match at position 0.\<close>

definition re_match :: "node list \<Rightarrow> pystr \<Rightarrow> bool" where
  "re_match pattern string = sre_match pattern 0 string"

section \<open>Converting strings to numbers: \<open>int\<close> and \<open>float\<close>\<close>

text \<open>
  Both conversions first pass the string through
  \<open>_PyUnicode_TransformDecimalAndSpaceToASCII\<close>: an ASCII string is taken as it is;
  otherwise every Unicode space becomes a blank, every Unicode decimal digit becomes its
  ASCII digit, and the first character that is neither is replaced by \<open>?\<close>, where
  the result ends. After that only the ASCII whitespace of \<open>Py_ISSPACE\<close> is skipped.
\<close>

fun transform_loop :: "pystr \<Rightarrow> pystr" where
  "transform_loop [] = []"
| "transform_loop (ch # rest) =
     (if ch < 127 then ch # transform_loop rest
      else if isspace ch then 32 # transform_loop rest
      else (case todecimal ch of
              None \<Rightarrow> [63]
            | Some d \<Rightarrow> (48 + d) # transform_loop rest))"

definition transform_decimal_and_space_to_ascii :: "pystr \<Rightarrow> pystr" where
  "transform_decimal_and_space_to_ascii u =
     (if list_all (\<lambda>ch. ch < 128) u then u else transform_loop u)"

definition py_isspace :: "nat \<Rightarrow> bool" where
  "py_isspace c = (c = 32 \<or> (9 \<le> c \<and> c \<le> 13))"

definition is_ascii_digit :: "nat \<Rightarrow> bool" where
  "is_ascii_digit c = (48 \<le> c \<and> c \<le> 57)"

text \<open>The number a string of ASCII digits denotes in base ten.\<close>

definition digits_value :: "pystr \<Rightarrow> int" where
  "digits_value ds = foldl (\<lambda>a c. 10 * a + (int c - 48)) 0 ds"

subsection \<open>\<open>int(str)\<close>\<close>

text \<open>
  \<open>long_from_string_base\<close> scans digits and underscores: two underscores in a row and an
  underscore at the end are errors. \<open>scan_digits rest prev ds\<close> returns the digits read
  and what follows them.
\<close>

fun scan_digits :: "pystr \<Rightarrow> nat \<Rightarrow> pystr \<Rightarrow> (pystr \<times> pystr) option" where
  "scan_digits [] prev ds = (if prev = 95 then None else Some (ds, []))"
| "scan_digits (c # cs) prev ds =
     (if is_ascii_digit c then scan_digits cs c (ds @ [c])
      else if c = 95 then (if prev = 95 then None else scan_digits cs c ds)
      else if prev = 95 then None
      else Some (ds, c # cs))"

text \<open>
  \<open>PyLong_FromString\<close> in base ten: leading whitespace, an optional sign, no underscore
  first, at least one digit, trailing whitespace, and nothing else. A string of more than
  \<open>max_str_digits\<close> digits is refused with a \<open>ValueError\<close> when it has more than 640 digits
  and the limit is not 0 (\<open>sys.get_int_max_str_digits()\<close>: 4300 unless configured, and
  0, no limit, in interpreters that predate it). \<open>None\<close> is the \<open>ValueError\<close>.
\<close>

definition PyLong_FromString :: "nat \<Rightarrow> pystr \<Rightarrow> int option" where
  "PyLong_FromString max_str_digits buffer =
     (let str = dropWhile py_isspace buffer;
          (sign, str) = (case str of
                           [] \<Rightarrow> (1, str)
                         | c # r \<Rightarrow> if c = 43 then (1, r) else if c = 45 then (- 1, r) else (1, str))
      in case str of
           [] \<Rightarrow> None
         | c # r \<Rightarrow>
             if c = 95 then None
             else (case scan_digits str 0 [] of
                     None \<Rightarrow> None
                   | Some (ds, rest) \<Rightarrow>
                       if 640 < length ds \<and> 0 < max_str_digits \<and> max_str_digits < length ds
                       then None
                       else if ds = [] then None
                       else if dropWhile py_isspace rest \<noteq> [] then None
                       else Some (sign * digits_value ds)))"

definition py_int :: "nat \<Rightarrow> pystr \<Rightarrow> int option" where
  "py_int max_str_digits x =
     PyLong_FromString max_str_digits (transform_decimal_and_space_to_ascii x)"

subsection \<open>\<open>float(str)\<close>\<close>

text \<open>
  A \<open>float\<close> is an IEEE 754 binary64 number. A finite one is identified with the rational
  number it denotes (the sign of zero plays no part in a comparison).
\<close>

datatype pyfloat = Fin rat | PosInf | NegInf | NaN

text \<open>Rounding to the nearest integer, a tie going to the even one.\<close>

definition round_half_even :: "rat \<Rightarrow> int" where
  "round_half_even x =
     (let f = \<lfloor>x\<rfloor>; r = x - of_int f
      in if r < 1 / 2 then f
         else if 1 / 2 < r then f + 1
         else if even f then f else f + 1)"

text \<open>The exponent \<open>e\<close> with \<open>2 ^ e \<le> a < 2 ^ (e + 1)\<close>, for a positive \<open>a\<close>.\<close>

definition binade :: "rat \<Rightarrow> int" where
  "binade a =
     (let (n, d) = quotient_of a;
          k = bitlen n - bitlen d
      in if 2 powi k \<le> a then k else k - 1)"

text \<open>
  The binary64 number nearest to a rational number, ties to even: 53 significant bits,
  the least exponent \<open>-1022\<close> (below it the numbers are subnormal, spaced \<open>2 ^ -1074\<close>
  apart), and infinity from \<open>2 ^ 1024\<close> on.
\<close>

definition round_double :: "rat \<Rightarrow> pyfloat" where
  "round_double x =
     (if x = 0 then Fin 0
      else
        let a = \<bar>x\<bar>;
            e = max (binade a) (- 1022);
            q = 2 powi (e - 52);
            y = of_int (round_half_even (a / q)) * q
        in if 2 ^ 1024 \<le> y then (if x < 0 then NegInf else PosInf)
           else Fin (if x < 0 then - y else y))"

text \<open>The comparisons \<open><\<close> and \<open>>\<close> of two floats; they are false when either is a NaN.\<close>

fun float_lt :: "pyfloat \<Rightarrow> pyfloat \<Rightarrow> bool" where
  "float_lt NaN _ = False"
| "float_lt _ NaN = False"
| "float_lt (Fin a) (Fin b) = (a < b)"
| "float_lt (Fin a) PosInf = True"
| "float_lt (Fin a) NegInf = False"
| "float_lt PosInf _ = False"
| "float_lt NegInf NegInf = False"
| "float_lt NegInf _ = True"

definition float_gt :: "pyfloat \<Rightarrow> pyfloat \<Rightarrow> bool" where
  "float_gt a b = float_lt b a"

text \<open>
  \<open>float\<close> allows an underscore between two digits
  (\<open>_Py_string_to_number_with_underscores\<close>): an underscore must follow a digit and be
  followed by one. The underscores are removed before the number is read.
\<close>

fun strip_underscores :: "pystr \<Rightarrow> nat \<Rightarrow> pystr option" where
  "strip_underscores [] prev = (if prev = 95 then None else Some [])"
| "strip_underscores (c # cs) prev =
     (if c = 95 then (if is_ascii_digit prev then strip_underscores cs c else None)
      else if prev = 95 \<and> \<not> is_ascii_digit c then None
      else map_option ((#) c) (strip_underscores cs c))"

text \<open>An optional sign: whether it is a minus, and what follows it.\<close>

fun parse_sign :: "pystr \<Rightarrow> bool \<times> pystr" where
  "parse_sign [] = (False, [])"
| "parse_sign (c # cs) =
     (if c = 45 then (True, cs) else if c = 43 then (False, cs) else (False, c # cs))"

text \<open>
  The exponent part of \<open>_Py_dg_strtod\<close>: \<open>e\<close> or \<open>E\<close>, an optional sign and at least one
  digit; without a digit the exponent is not part of the number. An exponent of more
  than nine significant digits, or beyond \<open>MAX_ABS_EXP\<close>, counts as \<open>MAX_ABS_EXP\<close>.
\<close>

definition parse_exponent :: "pystr \<Rightarrow> int \<times> pystr" where
  "parse_exponent s =
     (case s of
        [] \<Rightarrow> (0, s)
      | c # cs \<Rightarrow>
          if c = 101 \<or> c = 69 then
            (let (esign, s1) = parse_sign cs;
                 ds = takeWhile is_ascii_digit s1;
                 sig = dropWhile (\<lambda>d. d = 48) ds;
                 abs_exp = (if 9 < length sig \<or> 1100000000 < digits_value sig
                            then 1100000000 else digits_value sig)
             in if ds = [] then (0, s)
                else (if esign then - abs_exp else abs_exp,
                      dropWhile is_ascii_digit s1))
          else (0, s))"

text \<open>
  \<open>_Py_dg_strtod\<close>: an optional sign, digits, an optional point and digits, with at least
  one digit in all, and an optional exponent. The result is the exact value read and what
  follows the number; \<open>None\<close> is a parse error. More than \<open>MAX_DIGITS\<close> digits, leading
  zeros not counted, or more than \<open>MAX_DIGITS\<close> digits after the point are a parse error.
\<close>

definition dg_strtod :: "pystr \<Rightarrow> (rat \<times> pystr) option" where
  "dg_strtod s00 =
     (let (sign, s) = parse_sign s00;
          ip = takeWhile is_ascii_digit s;
          s = dropWhile is_ascii_digit s;
          (fp, s) = (case s of
                       [] \<Rightarrow> ([], s)
                     | c # cs \<Rightarrow>
                         if c = 46
                         then (takeWhile is_ascii_digit cs, dropWhile is_ascii_digit cs)
                         else ([], s));
          ndigits = length (dropWhile (\<lambda>d. d = 48) (ip @ fp));
          fraclen = length fp
      in if ip @ fp = [] then None
         else if 1000000000 < int ndigits \<or> 1000000000 < int fraclen then None
         else
           (let (e, s) = parse_exponent s;
                v = of_int (digits_value (ip @ fp)) * 10 powi (e - int fraclen)
            in Some (if sign then - v else v, s)))"

text \<open>\<open>_Py_parse_inf_or_nan\<close>: \<open>inf\<close>, \<open>infinity\<close> or \<open>nan\<close> in any case, after an optional sign.\<close>

definition py_tolower :: "nat \<Rightarrow> nat" where
  "py_tolower c = (if 65 \<le> c \<and> c \<le> 90 then c + 32 else c)"

fun case_insensitive_match :: "pystr \<Rightarrow> pystr \<Rightarrow> bool" where
  "case_insensitive_match s [] = True"
| "case_insensitive_match [] (t # ts) = False"
| "case_insensitive_match (c # cs) (t # ts) =
     (py_tolower c = t \<and> case_insensitive_match cs ts)"

definition parse_inf_or_nan :: "pystr \<Rightarrow> (pyfloat \<times> pystr) option" where
  "parse_inf_or_nan p =
     (let (negate, s) = parse_sign p
      in if case_insensitive_match s (lit ''inf'') then
           (let s = drop 3 s;
                s = (if case_insensitive_match s (lit ''inity'') then drop 5 s else s)
            in Some (if negate then NegInf else PosInf, s))
         else if case_insensitive_match s (lit ''nan'') then Some (NaN, drop 3 s)
         else None)"

text \<open>
  \<open>PyOS_string_to_double\<close>: the number read by \<open>_Py_dg_strtod\<close>, correctly rounded, or
  else an infinity or a NaN; the second component is where reading stopped.
\<close>

definition string_to_double :: "pystr \<Rightarrow> (pyfloat \<times> pystr) option" where
  "string_to_double s =
     (case dg_strtod s of
        Some (v, rest) \<Rightarrow> Some (round_double v, rest)
      | None \<Rightarrow> parse_inf_or_nan s)"

text \<open>
  \<open>PyFloat_FromString\<close>: the whitespace around the number is dropped (an empty or blank
  string is an error), the underscores are removed, and the number must reach the end
  of the string. \<open>None\<close> is the \<open>ValueError\<close>.
\<close>

definition rstrip :: "pystr \<Rightarrow> pystr" where
  "rstrip s = rev (dropWhile py_isspace (rev s))"

definition py_float :: "pystr \<Rightarrow> pyfloat option" where
  "py_float x =
     (let s = dropWhile py_isspace (transform_decimal_and_space_to_ascii x)
      in if s = [] then None
         else (case strip_underscores (rstrip s) 0 of
                 None \<Rightarrow> None
               | Some t \<Rightarrow>
                   (case string_to_double t of
                      None \<Rightarrow> None
                    | Some (f, rest) \<Rightarrow> if rest = [] then Some f else None)))"

text \<open>A float literal of the source text denotes the double nearest to it.\<close>

definition float_literal :: "rat \<Rightarrow> pyfloat" where
  "float_literal x = round_double x"

text \<open>
  The decimal number that \<open>float\<close> reads from a string, before it is rounded: the steps
  of \<open>py_float\<close>, with the value of \<open>_Py_dg_strtod\<close> kept exact. It is \<open>None\<close> when
  \<open>float\<close> raises \<open>ValueError\<close> and when it reads an infinity or a NaN.
\<close>

definition decimal_value :: "pystr \<Rightarrow> rat option" where
  "decimal_value x =
     (let s = dropWhile py_isspace (transform_decimal_and_space_to_ascii x)
      in if s = [] then None
         else (case strip_underscores (rstrip s) 0 of
                 None \<Rightarrow> None
               | Some t \<Rightarrow>
                   (case dg_strtod t of
                      None \<Rightarrow> None
                    | Some (v, rest) \<Rightarrow> if rest = [] then Some v else None)))"

section \<open>The field validators of \<open>Validator\<close>\<close>

text \<open>
  Each pattern is written as \<open>sre_parse\<close> reads the pattern string of the source; a set
  of one character, such as \<open>[\-]\<close> or \<open>[(]\<close>, is read as that literal.
\<close>

definition digit :: "set_item list" where
  "digit = [CATEGORY CATEGORY_DIGIT]"

definition check_telephone :: "pystr \<Rightarrow> bool" where
  "check_telephone telephone =
     (let pattern =
        [AT_BEGINNING,
         SUBPATTERN
           [LIT 43, LIT 55, LIT 45, LIT 40, MAX_REPEAT 3 (Some 3) digit, LIT 41, LIT 45,
            MAX_REPEAT 3 (Some 3) digit, LIT 45, MAX_REPEAT 2 (Some 2) digit, LIT 45,
            MAX_REPEAT 2 (Some 2) digit],
         AT_END]
      in if re_match pattern telephone then True else False)"

definition check_snils :: "pystr \<Rightarrow> bool" where
  "check_snils snils =
     (let pattern = [AT_BEGINNING, MAX_REPEAT 11 (Some 11) digit, AT_END]
      in if re_match pattern snils then True else False)"

definition check_passport :: "pystr \<Rightarrow> bool" where
  "check_passport passport =
     (let pattern =
        [AT_BEGINNING, MAX_REPEAT 2 (Some 2) digit, LIT 32, MAX_REPEAT 2 (Some 2) digit,
         AT_END]
      in if re_match pattern passport then True else False)"

text \<open>
  \<open>fheight > 1.20 and fheight < 2.10\<close>, after \<open>float(height)\<close>; a \<open>ValueError\<close> gives
  \<open>False\<close>.
\<close>

definition check_height :: "pystr \<Rightarrow> bool" where
  "check_height height =
     (case py_float height of
        None \<Rightarrow> False
      | Some fheight \<Rightarrow>
          float_gt fheight (float_literal (120 / 100))
          \<and> float_lt fheight (float_literal (210 / 100)))"

text \<open>
  \<open>iyears >= 2 and iyears < 20\<close>, after \<open>int(work_experience)\<close>; a \<open>ValueError\<close> gives
  \<open>False\<close>. The first argument is the interpreter's limit on the digits of an integer
  string.
\<close>

definition check_work_experience :: "nat \<Rightarrow> pystr \<Rightarrow> bool" where
  "check_work_experience max_str_digits work_experience =
     (case py_int max_str_digits work_experience of
        None \<Rightarrow> False
      | Some iyears \<Rightarrow> 2 \<le> iyears \<and> iyears < 20)"

text \<open>The Cyrillic ranges are U+0430 to U+044F (small) and U+0410 to U+042F (capital).\<close>

definition check_address :: "pystr \<Rightarrow> bool" where
  "check_address address =
     (let pattern =
        [AT_BEGINNING,
         MAX_REPEAT 1 None
           [RANGE 1072 1103, RANGE 1040 1071, LITERAL 45, CATEGORY CATEGORY_SPACE],
         MAX_REPEAT 1 None digit,
         AT_END]
      in if re_match pattern address then True else False)"

definition check_university :: "pystr \<Rightarrow> bool" where
  "check_university university =
     (let pattern =
        [AT_BEGINNING,
         MAX_REPEAT 1 None
           [RANGE 1072 1103, RANGE 1040 1071, LITERAL 45, CATEGORY CATEGORY_SPACE,
            LITERAL 46],
         AT_END]
      in if re_match pattern university then True else False)"

definition check_degree :: "pystr \<Rightarrow> bool" where
  "check_degree degree =
     (let pattern =
        [AT_BEGINNING,
         MAX_REPEAT 1 None
           [RANGE 97 122, RANGE 65 90, RANGE 1072 1103, RANGE 1040 1071, LITERAL 32,
            LITERAL 45],
         AT_END]
      in if re_match pattern degree then True else False)"

definition check_worldview :: "pystr \<Rightarrow> bool" where
  "check_worldview worldview =
     (let pattern =
        [AT_BEGINNING,
         MAX_REPEAT 1 None
           [RANGE 97 122, RANGE 65 90, RANGE 1072 1103, RANGE 1040 1071, LITERAL 32,
            LITERAL 45],
         AT_END]
      in if re_match pattern worldview then True else False)"

section \<open>Records and their classification\<close>

text \<open>
  The input is a list of JSON objects whose values the program treats as strings
  (\<open>Entry\<close> declares every field a \<open>str\<close>). \<open>dic['key']\<close> raises \<open>KeyError\<close> for a
  missing key; nothing in the program catches it.
\<close>

datatype error = KeyError pystr

type_synonym dict = "pystr \<rightharpoonup> pystr"

definition getitem :: "dict \<Rightarrow> pystr \<Rightarrow> error + pystr" where
  "getitem dic key = (case dic key of None \<Rightarrow> Inl (KeyError key) | Some v \<Rightarrow> Inr v)"

definition bind :: "error + 'a \<Rightarrow> ('a \<Rightarrow> error + 'b) \<Rightarrow> error + 'b" where
  "bind m f = (case m of Inl e \<Rightarrow> Inl e | Inr x \<Rightarrow> f x)"

record Entry =
  curdict :: dict
  telephone :: pystr
  height :: pystr
  snils :: pystr
  passport_series :: pystr
  university :: pystr
  work_experience :: pystr
  academic_degree :: pystr
  worldview :: pystr
  address :: pystr

text \<open>\<open>Entry.__init__\<close>: the nine lookups, in the order of the source.\<close>

definition Entry_init :: "dict \<Rightarrow> error + Entry" where
  "Entry_init dic =
     bind (getitem dic (lit ''telephone'')) (\<lambda>v1.
     bind (getitem dic (lit ''height'')) (\<lambda>v2.
     bind (getitem dic (lit ''snils'')) (\<lambda>v3.
     bind (getitem dic (lit ''passport_series'')) (\<lambda>v4.
     bind (getitem dic (lit ''university'')) (\<lambda>v5.
     bind (getitem dic (lit ''work_experience'')) (\<lambda>v6.
     bind (getitem dic (lit ''academic_degree'')) (\<lambda>v7.
     bind (getitem dic (lit ''worldview'')) (\<lambda>v8.
     bind (getitem dic (lit ''address'')) (\<lambda>v9.
       Inr \<lparr>curdict = dic, telephone = v1, height = v2, snils = v3,
            passport_series = v4, university = v5, work_experience = v6,
            academic_degree = v7, worldview = v8, address = v9\<rparr>)))))))))"

record Validator =
  entries :: "Entry list"

text \<open>
  \<open>Validator.__init__\<close>: the loop appends \<open>Entry(i)\<close> for each object of the batch; the
  first \<open>KeyError\<close> leaves the loop and the constructor.
\<close>

fun init_loop :: "dict list \<Rightarrow> Entry list \<Rightarrow> error + Entry list" where
  "init_loop [] acc = Inr acc"
| "init_loop (i # rest) acc =
     (case Entry_init i of
        Inl e \<Rightarrow> Inl e
      | Inr entry \<Rightarrow> init_loop rest (acc @ [entry]))"

definition Validator_init :: "dict list \<Rightarrow> error + Validator" where
  "Validator_init batch =
     (case init_loop batch [] of
        Inl e \<Rightarrow> Inl e
      | Inr es \<Rightarrow> Inr \<lparr>entries = es\<rparr>)"

text \<open>\<open>Validator.parse_entry\<close>: the chain of \<open>if\<close> and \<open>elif\<close>, each appending one key.\<close>

definition parse_entry :: "nat \<Rightarrow> Entry \<Rightarrow> pystr list" where
  "parse_entry max_str_digits entry =
     (let illegal_keys = []
      in if \<not> check_telephone (telephone entry) then illegal_keys @ [lit ''telephone'']
         else if \<not> check_snils (snils entry) then illegal_keys @ [lit ''snils'']
         else if \<not> check_passport (passport_series entry)
           then illegal_keys @ [lit ''passport_series'']
         else if \<not> check_height (height entry) then illegal_keys @ [lit ''height'']
         else if \<not> check_work_experience max_str_digits (work_experience entry)
           then illegal_keys @ [lit ''work_experience'']
         else if \<not> check_address (address entry) then illegal_keys @ [lit ''address'']
         else if \<not> check_university (university entry)
           then illegal_keys @ [lit ''university'']
         else if \<not> check_degree (academic_degree entry)
           then illegal_keys @ [lit ''academic_degree'']
         else if \<not> check_worldview (worldview entry)
           then illegal_keys @ [lit ''worldview'']
         else illegal_keys)"

text \<open>
  \<open>Validator.parse\<close>: the loop over \<open>self.entries\<close> with its two accumulators,
  \<open>illegal_entries\<close> and \<open>legal_entries\<close>.
\<close>

fun parse_loop ::
  "nat \<Rightarrow> Entry list \<Rightarrow> pystr list list \<times> Entry list \<Rightarrow> pystr list list \<times> Entry list"
where
  "parse_loop max_str_digits [] acc = acc"
| "parse_loop max_str_digits (i # rest) (illegal_entries, legal_entries) =
     (let illkeys = parse_entry max_str_digits i
      in if length illkeys \<noteq> 0
         then parse_loop max_str_digits rest (illegal_entries @ [illkeys], legal_entries)
         else parse_loop max_str_digits rest (illegal_entries, legal_entries @ [i]))"

definition parse :: "nat \<Rightarrow> Validator \<Rightarrow> pystr list list \<times> Entry list" where
  "parse max_str_digits self = parse_loop max_str_digits (entries self) ([], [])"

section \<open>The error summary\<close>

text \<open>
  \<open>errors_count\<close> is a dictionary literal of nine keys; a Python dictionary keeps the
  order in which its keys were inserted, and \<open>errors_count[j] += 1\<close> changes the value
  of a key that is there and raises \<open>KeyError\<close> for one that is not. It is an
  association list here, the order being what the summary shows.
\<close>

definition initial_errors_count :: "(pystr \<times> nat) list" where
  "initial_errors_count =
     [(lit ''telephone'', 0), (lit ''height'', 0), (lit ''snils'', 0),
      (lit ''passport_series'', 0), (lit ''university'', 0), (lit ''work_experience'', 0),
      (lit ''academic_degree'', 0), (lit ''worldview'', 0), (lit ''address'', 0)]"

fun increment :: "(pystr \<times> nat) list \<Rightarrow> pystr \<Rightarrow> error + (pystr \<times> nat) list" where
  "increment [] j = Inl (KeyError j)"
| "increment ((k, v) # rest) j =
     (if k = j then Inr ((k, v + 1) # rest)
      else (case increment rest j of
              Inl e \<Rightarrow> Inl e
            | Inr rest' \<Rightarrow> Inr ((k, v) # rest')))"

text \<open>The inner loop \<open>for j in i\<close> and the outer loop \<open>for i in result\<close>.\<close>

fun count_keys ::
  "pystr list \<Rightarrow> nat \<times> (pystr \<times> nat) list \<Rightarrow> error + nat \<times> (pystr \<times> nat) list"
where
  "count_keys [] acc = Inr acc"
| "count_keys (j # js) (all_errors_count, errors_count) =
     (case increment errors_count j of
        Inl e \<Rightarrow> Inl e
      | Inr errors_count' \<Rightarrow> count_keys js (all_errors_count + 1, errors_count'))"

fun count_result ::
  "pystr list list \<Rightarrow> nat \<times> (pystr \<times> nat) list \<Rightarrow> error + nat \<times> (pystr \<times> nat) list"
where
  "count_result [] acc = Inr acc"
| "count_result (i # rest) acc =
     (case count_keys i acc of
        Inl e \<Rightarrow> Inl e
      | Inr acc' \<Rightarrow> count_result rest acc')"

text \<open>\<open>str(n)\<close> and \<open>'%d' % n\<close> for a count: its decimal digits.\<close>

function str_nat :: "nat \<Rightarrow> pystr" where
  "str_nat n = (if n < 10 then [48 + n] else str_nat (n div 10) @ [48 + n mod 10])"
  by pat_completeness auto
termination
  by (relation "measure id") auto

declare str_nat.simps [simp del]

text \<open>
  What the summary writes: text on the standard output, or the content of the file
  named. The two headings are the Russian for "Errors in all: " and "Number of errors by
  type: ", given by their code points.
\<close>

datatype written = Stdout pystr | File pystr pystr

definition total_heading :: pystr where
  "total_heading =
     [1042, 1089, 1077, 1075, 1086, 32, 1086, 1096, 1080, 1073, 1086, 1082, 58, 32]"

definition types_heading :: pystr where
  "types_heading =
     [1050, 1086, 1083, 1080, 1095, 1077, 1089, 1090, 1074, 1086, 32, 1086, 1096, 1080,
      1073, 1086, 1082, 32, 1087, 1086, 32, 1090, 1080, 1087, 1072, 1084, 58, 32]"

definition summary_line :: "pystr \<times> nat \<Rightarrow> pystr" where
  "summary_line kv = fst kv @ lit '': '' @ str_nat (snd kv) @ [10]"

definition show_summary :: "pystr list list \<Rightarrow> pystr \<Rightarrow> error + written" where
  "show_summary result filename =
     (case count_result result (0, initial_errors_count) of
        Inl e \<Rightarrow> Inl e
      | Inr (all_errors_count, errors_count) \<Rightarrow>
          if filename = [] then
            Inr (Stdout
              ([10] @ total_heading @ str_nat all_errors_count @ [10] @ [10]
               @ types_heading @ [10]
               @ concat (map summary_line errors_count)))
          else
            Inr (File filename
              (total_heading @ str_nat all_errors_count @ [10]
               @ concat (map summary_line errors_count))))"

section \<open>The script\<close>

text \<open>
  The body of the script once the batch is read: \<open>val = Validator(data)\<close>,
  \<open>res = val.parse()\<close>, \<open>show_summary(res[0], output_file)\<close>, and the valid records
  \<open>res[1]\<close> handed to \<open>save_in_json\<close>. An exception ends the script where it is raised.
\<close>

definition main :: "nat \<Rightarrow> dict list \<Rightarrow> pystr \<Rightarrow> error + written \<times> Entry list" where
  "main max_str_digits data output_file =
     bind (Validator_init data) (\<lambda>val.
       let res = parse max_str_digits val
       in bind (show_summary (fst res) output_file) (\<lambda>summary.
            Inr (summary, snd res)))"

section \<open>The alphabet of degree and worldview, as the specification words it\<close>

text \<open>
  "One or more characters from Latin letters, Cyrillic letters, hyphen, whitespace": the
  Latin letters \<open>a\<close> to \<open>z\<close> and \<open>A\<close> to \<open>Z\<close>, the letters of the Russian alphabet (U+0410 to
  U+044F, and the two forms of the letter io, U+0401 and U+0451), the hyphen, and the
  whitespace characters.
\<close>

definition spec_degree_char :: "nat \<Rightarrow> bool" where
  "spec_degree_char c =
     ((97 \<le> c \<and> c \<le> 122) \<or> (65 \<le> c \<and> c \<le> 90) \<or> (1040 \<le> c \<and> c \<le> 1103)
      \<or> c = 1025 \<or> c = 1105 \<or> c = 45 \<or> isspace c)"

definition spec_degree_accepts :: "pystr \<Rightarrow> bool" where
  "spec_degree_accepts s = (s \<noteq> [] \<and> list_all spec_degree_char s)"

section \<open>Example records\<close>

text \<open>
  A record that passes every check (telephone \<open>+7-(123)-456-78-90\<close>, height \<open>1.75\<close>, an
  address and a university in Cyrillic letters), as a JSON object and as an \<open>Entry\<close>; and
  one whose telephone and SNILS are both malformed.
\<close>

definition valid_dict :: dict where
  "valid_dict =
     map_of
       [(lit ''telephone'', lit ''+7-(123)-456-78-90''),
        (lit ''height'', lit ''1.75''),
        (lit ''snils'', lit ''12345678901''),
        (lit ''passport_series'', lit ''12 34''),
        (lit ''university'', [1052, 1043, 1059]),
        (lit ''work_experience'', lit ''5''),
        (lit ''academic_degree'', lit ''PhD''),
        (lit ''worldview'', lit ''atheism''),
        (lit ''address'', [1051, 1077, 1085, 1080, 1085, 1072, 32, 49, 48])]"

definition valid_entry :: Entry where
  "valid_entry =
     \<lparr>curdict = valid_dict, telephone = lit ''+7-(123)-456-78-90'', height = lit ''1.75'',
      snils = lit ''12345678901'', passport_series = lit ''12 34'',
      university = [1052, 1043, 1059], work_experience = lit ''5'',
      academic_degree = lit ''PhD'', worldview = lit ''atheism'',
      address = [1051, 1077, 1085, 1080, 1085, 1072, 32, 49, 48]\<rparr>"

definition dict_without_address :: dict where
  "dict_without_address = valid_dict(lit ''address'' := None)"

definition invalid_entry :: Entry where
  "invalid_entry = valid_entry\<lparr>telephone := lit ''+71234567890'', snils := lit ''12-34''\<rparr>"

section \<open>Evaluating the patterns\<close>

lemma sre_match_numeral:
  "sre_match (MAX_REPEAT (numeral n) hi items # p) pos [] = False"
  "sre_match (MAX_REPEAT (numeral n) hi items # p) pos (c # rest) =
     (in_set items c
      \<and> sre_match (MAX_REPEAT (pred_numeral n) (dec_max hi) items # p) (Suc pos) rest)"
  by (simp_all add: numeral_eq_Suc)

lemma sre_match_one:
  "sre_match (MAX_REPEAT 1 hi items # p) pos [] = False"
  "sre_match (MAX_REPEAT 1 hi items # p) pos (c # rest) =
     (in_set items c \<and> sre_match (MAX_REPEAT 0 (dec_max hi) items # p) (Suc pos) rest)"
  by simp_all

lemmas re_eval = re_match_def lit_def digit_def in_set_def isdecimal_def todecimal_def
  decimal_zeros_def isspace_def unicode_spaces_def sre_match_numeral sre_match_one

lemma truth_of_match: "(if b then True else False) = b"
  by simp

lemmas check_eqs = check_telephone_def check_snils_def check_passport_def check_address_def
  check_university_def check_degree_def check_worldview_def Let_def truth_of_match

lemma telephone_without_separators_rejected: "\<not> check_telephone (lit ''+71234567890'')"
  by (simp add: check_telephone_def re_eval)

lemma snils_with_hyphen_rejected: "\<not> check_snils (lit ''12-34'')"
  by (simp add: check_snils_def re_eval)

section \<open>The classifier\<close>

lemma parse_loop_eq:
  "parse_loop m es (ill, leg) =
     (ill @ map (parse_entry m) (filter (\<lambda>e. parse_entry m e \<noteq> []) es),
      leg @ filter (\<lambda>e. parse_entry m e = []) es)"
  by (induction es arbitrary: ill leg) (simp_all add: Let_def)

text \<open>
  C1. \<open>Validator.parse\<close> puts every record of the batch into exactly one of its two
  results: the valid records are the records with no failing field, in the order of the
  batch, and the invalid outcomes are the failure reasons of the other records, in the
  order of the batch; so the two lengths add up to the length of the batch, and no
  record is dropped or taken twice.
\<close>

theorem parse_partitions_batch:
  "length (fst (parse m v)) + length (snd (parse m v)) = length (entries v)
   \<and> snd (parse m v) = filter (\<lambda>e. parse_entry m e = []) (entries v)
   \<and> fst (parse m v) =
       map (parse_entry m) (filter (\<lambda>e. parse_entry m e \<noteq> []) (entries v))"
proof -
  have "length (filter (\<lambda>e. parse_entry m e \<noteq> []) (entries v))
        + length (filter (\<lambda>e. parse_entry m e = []) (entries v)) = length (entries v)"
    using sum_length_filter_compl [of "\<lambda>e. parse_entry m e \<noteq> []" "entries v"] by simp
  then show ?thesis
    by (simp add: parse_def parse_loop_eq)
qed

text \<open>
  C2. \<open>parse_entry\<close> checks the fields in the order telephone, snils, passport_series,
  height, work_experience, address, university, academic_degree, worldview, and its
  result is the one-element list of the first field that fails (the empty list when
  none fails), whatever the later fields are; in particular a record whose telephone
  fails reports only \<open>telephone\<close>.
\<close>

theorem parse_entry_first_failure:
  "parse_entry m e =
     (case List.find (\<lambda>kc. \<not> snd kc)
        [(lit ''telephone'', check_telephone (telephone e)),
         (lit ''snils'', check_snils (snils e)),
         (lit ''passport_series'', check_passport (passport_series e)),
         (lit ''height'', check_height (height e)),
         (lit ''work_experience'', check_work_experience m (work_experience e)),
         (lit ''address'', check_address (address e)),
         (lit ''university'', check_university (university e)),
         (lit ''academic_degree'', check_degree (academic_degree e)),
         (lit ''worldview'', check_worldview (worldview e))] of
        None \<Rightarrow> []
      | Some kc \<Rightarrow> [fst kc])
   \<and> (\<not> check_telephone (telephone e) \<longrightarrow> parse_entry m e = [lit ''telephone''])"
  by (simp add: parse_entry_def)

theorem parse_entry_first_failure_witness:
  "\<not> check_telephone (telephone invalid_entry) \<and> \<not> check_snils (snils invalid_entry)
   \<and> parse_entry 4300 invalid_entry = [lit ''telephone'']"
proof -
  have t: "\<not> check_telephone (telephone invalid_entry)"
    by (simp add: invalid_entry_def valid_entry_def telephone_without_separators_rejected)
  have s: "\<not> check_snils (snils invalid_entry)"
    by (simp add: invalid_entry_def valid_entry_def snils_with_hyphen_rejected)
  from parse_entry_first_failure [of 4300 invalid_entry]
  have "\<not> check_telephone (telephone invalid_entry)
        \<longrightarrow> parse_entry 4300 invalid_entry = [lit ''telephone'']"
    by (rule conjunct2)
  with t have "parse_entry 4300 invalid_entry = [lit ''telephone'']"
    by blast
  with t s show ?thesis
    by blast
qed

section \<open>A missing key\<close>

lemma Entry_init_missing:
  assumes "k \<in> set (map lit [''telephone'', ''height'', ''snils'', ''passport_series'',
             ''university'', ''work_experience'', ''academic_degree'', ''worldview'',
             ''address''])"
    and "d k = None"
  shows "\<exists>k'. Entry_init d = Inl (KeyError k') \<and> d k' = None"
  using assms
  by (auto simp: Entry_init_def bind_def getitem_def split: option.splits)

lemma Entry_init_error:
  "Entry_init d = Inl e \<Longrightarrow> \<exists>k'. e = KeyError k' \<and> d k' = None"
  by (auto simp: Entry_init_def bind_def getitem_def split: option.splits)

lemma init_loop_missing:
  assumes "d \<in> set data" and "Entry_init d = Inl e"
  shows "\<exists>d'\<in>set data. \<exists>k'. init_loop data acc = Inl (KeyError k') \<and> d' k' = None"
  using assms
proof (induction data arbitrary: acc)
  case Nil
  then show ?case by simp
next
  case (Cons x data)
  show ?case
  proof (cases "Entry_init x")
    case (Inl e')
    with Entry_init_error [of x e'] show ?thesis by auto
  next
    case (Inr entry)
    with Cons.prems have "d \<in> set data" by auto
    from Cons.IH [OF this Cons.prems(2), of "acc @ [entry]"] Inr show ?thesis by auto
  qed
qed

text \<open>
  C7. When some record of the batch lacks one of the nine keys, the construction of the
  \<open>Validator\<close> raises \<open>KeyError\<close> for a key missing from a record of the batch, and so
  does the script: it produces neither a classification nor a summary, and the record is
  not skipped.
\<close>

theorem missing_key_aborts_batch:
  assumes "d \<in> set data"
    and "k \<in> set (map lit [''telephone'', ''height'', ''snils'', ''passport_series'',
             ''university'', ''work_experience'', ''academic_degree'', ''worldview'',
             ''address''])"
    and "d k = None"
  shows "\<exists>d'\<in>set data. \<exists>k'. d' k' = None
           \<and> Validator_init data = Inl (KeyError k')
           \<and> main m data output_file = Inl (KeyError k')"
proof -
  from Entry_init_missing [of k d, OF assms(2,3)] obtain k0 where "Entry_init d = Inl (KeyError k0)"
    by blast
  from init_loop_missing [OF assms(1) this, of "[]"]
  show ?thesis
    by (auto simp: Validator_init_def main_def bind_def)
qed


theorem missing_key_aborts_batch_witness:
  "dict_without_address \<in> set [valid_dict, dict_without_address]
   \<and> dict_without_address (lit ''address'') = None
   \<and> main 4300 [valid_dict, dict_without_address] [] = Inl (KeyError (lit ''address''))"
proof -
  have a: "dict_without_address \<in> set [valid_dict, dict_without_address]"
    by simp
  have b: "lit ''address''
           \<in> set (map lit [''telephone'', ''height'', ''snils'', ''passport_series'',
                ''university'', ''work_experience'', ''academic_degree'', ''worldview'',
                ''address''])"
    by simp
  have c: "dict_without_address (lit ''address'') = None"
    by (simp add: dict_without_address_def)
  have v: "Validator_init [valid_dict, dict_without_address]
           = Inl (KeyError (lit ''address''))"
    by (simp add: Validator_init_def Entry_init_def bind_def getitem_def
          dict_without_address_def valid_dict_def lit_def)
  from missing_key_aborts_batch [OF a b c, of 4300 "[]"] obtain k' where
    "Validator_init [valid_dict, dict_without_address] = Inl (KeyError k')"
    "main 4300 [valid_dict, dict_without_address] [] = Inl (KeyError k')"
    by blast
  with v have "main 4300 [valid_dict, dict_without_address] [] = Inl (KeyError (lit ''address''))"
    by simp
  with a c show ?thesis
    by blast
qed

section \<open>The summary\<close>

lemma increment_present:
  "distinct (map fst c) \<Longrightarrow> j \<in> set (map fst c) \<Longrightarrow>
     increment c j = Inr (map (\<lambda>kv. (fst kv, snd kv + (if fst kv = j then 1 else 0))) c)"
proof (induction c)
  case Nil
  then show ?case by simp
next
  case (Cons a c)
  obtain k v where a: "a = (k, v)" by (cases a)
  show ?case
  proof (cases "k = j")
    case True
    with Cons.prems a have "\<forall>kv\<in>set c. fst kv \<noteq> j" by auto
    then have "map (\<lambda>kv. (fst kv, snd kv + (if fst kv = j then 1 else 0))) c = c"
      by (induction c) auto
    with True a show ?thesis by simp
  next
    case False
    with Cons a show ?thesis by auto
  qed
qed

lemma count_keys_present:
  "distinct (map fst c) \<Longrightarrow> set js \<subseteq> set (map fst c) \<Longrightarrow>
     count_keys js (n, c) =
       Inr (n + length js, map (\<lambda>kv. (fst kv, snd kv + count_list js (fst kv))) c)"
proof (induction js arbitrary: n c)
  case Nil
  then show ?case by simp
next
  case (Cons j js)
  let ?c' = "map (\<lambda>kv. (fst kv, snd kv + (if fst kv = j then 1 else 0))) c"
  from Cons.prems have inc: "increment c j = Inr ?c'"
    by (simp add: increment_present)
  have keys: "map fst ?c' = map fst c"
    by (simp add: comp_def)
  have d': "distinct (map fst ?c')"
    unfolding keys using Cons.prems(1) .
  have s': "set js \<subseteq> set (map fst ?c')"
    unfolding keys using Cons.prems(2) by simp
  have "count_keys js (n + 1, ?c') =
       Inr (n + 1 + length js, map (\<lambda>kv. (fst kv, snd kv + count_list js (fst kv))) ?c')"
    by (rule Cons.IH [OF d' s'])
  with inc show ?case
    by (auto simp: comp_def)
qed

lemma count_result_present:
  "distinct (map fst c) \<Longrightarrow> set (concat r) \<subseteq> set (map fst c) \<Longrightarrow>
     count_result r (n, c) =
       Inr (n + length (concat r),
            map (\<lambda>kv. (fst kv, snd kv + count_list (concat r) (fst kv))) c)"
proof (induction r arbitrary: n c)
  case Nil
  then show ?case by simp
next
  case (Cons i r)
  let ?c' = "map (\<lambda>kv. (fst kv, snd kv + count_list i (fst kv))) c"
  from Cons.prems have step: "count_keys i (n, c) = Inr (n + length i, ?c')"
    by (simp add: count_keys_present)
  have keys: "map fst ?c' = map fst c"
    by (simp add: comp_def)
  have d': "distinct (map fst ?c')"
    unfolding keys using Cons.prems(1) .
  have s': "set (concat r) \<subseteq> set (map fst ?c')"
    unfolding keys using Cons.prems(2) by simp
  have "count_result r (n + length i, ?c') =
       Inr (n + length i + length (concat r),
            map (\<lambda>kv. (fst kv, snd kv + count_list (concat r) (fst kv))) ?c')"
    by (rule Cons.IH [OF d' s'])
  with step show ?case
    by (simp add: comp_def add.assoc)
qed

lemma sum_count_list:
  "distinct ks \<Longrightarrow> set js \<subseteq> set ks \<Longrightarrow> sum_list (map (count_list js) ks) = length js"
  using sum_count_set [of js "set ks"] by (simp add: sum_list_distinct_conv_sum_set)


lemma parse_entry_keys:
  "set (parse_entry m e) \<subseteq> set (map fst initial_errors_count)"
  by (auto simp: parse_entry_def initial_errors_count_def)

lemma parse_entry_length: "parse_entry m e \<noteq> [] \<Longrightarrow> length (parse_entry m e) = 1"
  by (simp add: parse_entry_def split: if_splits)

lemma parse_reasons_keys:
  "set (concat (fst (parse m v))) \<subseteq> set (map fst initial_errors_count)"
  using parse_entry_keys by (fastforce simp: parse_def parse_loop_eq)

lemma concat_singletons: "\<forall>x\<in>set xs. length x = 1 \<Longrightarrow> length (concat xs) = length xs"
  by (induction xs) simp_all

lemma parse_reasons_length: "length (concat (fst (parse m v))) = length (fst (parse m v))"
  by (rule concat_singletons) (auto simp: parse_def parse_loop_eq parse_entry_length)

lemma distinct_keys: "distinct (map fst initial_errors_count)"
  by (simp add: initial_errors_count_def lit_def)

lemma show_summary_counts:
  "show_summary (fst (parse m v)) filename =
     (let counts =
            map (\<lambda>k. (k, count_list (concat (fst (parse m v))) k))
              (map lit [''telephone'', ''height'', ''snils'', ''passport_series'',
                 ''university'', ''work_experience'', ''academic_degree'', ''worldview'',
                 ''address'']);
          total = sum_list (map snd counts);
          field_lines = concat (map summary_line counts)
      in Inr (if filename = []
              then Stdout ([10] @ total_heading @ str_nat total @ [10] @ [10]
                           @ types_heading @ [10] @ field_lines)
              else File filename (total_heading @ str_nat total @ [10] @ field_lines)))
   \<and> sum_list
         (map (count_list (concat (fst (parse m v))))
            (map lit [''telephone'', ''height'', ''snils'', ''passport_series'',
               ''university'', ''work_experience'', ''academic_degree'', ''worldview'',
               ''address'']))
       = length (fst (parse m v))"
proof -
  let ?js = "concat (fst (parse m v))"
  let ?keys = "map lit [''telephone'', ''height'', ''snils'', ''passport_series'',
                 ''university'', ''work_experience'', ''academic_degree'', ''worldview'',
                 ''address'']"
  have keys: "map fst initial_errors_count = ?keys"
    by (simp add: initial_errors_count_def)
  have counted: "count_result (fst (parse m v)) (0, initial_errors_count) =
      Inr (0 + length ?js,
           map (\<lambda>kv. (fst kv, snd kv + count_list ?js (fst kv))) initial_errors_count)"
    by (rule count_result_present [OF distinct_keys parse_reasons_keys])
  have counts: "map (\<lambda>kv. (fst kv, snd kv + count_list ?js (fst kv))) initial_errors_count
      = map (\<lambda>k. (k, count_list ?js k)) ?keys"
    by (simp add: initial_errors_count_def)
  have total: "sum_list (map (count_list ?js) ?keys) = length ?js"
    using distinct_keys parse_reasons_keys unfolding keys by (rule sum_count_list)
  have snd_counts: "map snd (map (\<lambda>k. (k, count_list ?js k)) ?keys) = map (count_list ?js) ?keys"
    by (simp add: comp_def)
  show ?thesis
    unfolding show_summary_def counted counts Let_def snd_counts total
    by (simp add: parse_reasons_length)
qed

lemma digits_value_snoc: "digits_value (ds @ [d]) = 10 * digits_value ds + (int d - 48)"
  by (simp add: digits_value_def)

lemma str_nat_decimal:
  "str_nat n \<noteq> [] \<and> list_all is_ascii_digit (str_nat n) \<and> digits_value (str_nat n) = int n
   \<and> (n = 0 \<or> hd (str_nat n) \<noteq> 48)"
proof (induction n rule: str_nat.induct)
  case (1 n)
  show ?case
  proof (cases "n < 10")
    case True
    then show ?thesis
      by (auto simp: str_nat.simps [of n] is_ascii_digit_def digits_value_def)
  next
    case False
    with 1 have IH: "str_nat (n div 10) \<noteq> []" "list_all is_ascii_digit (str_nat (n div 10))"
      "digits_value (str_nat (n div 10)) = int (n div 10)"
      "n div 10 = 0 \<or> hd (str_nat (n div 10)) \<noteq> 48"
      by simp_all
    have v: "10 * int (n div 10) + int (n mod 10) = int n"
      by presburger
    have d: "is_ascii_digit (48 + n mod 10)"
      unfolding is_ascii_digit_def by presburger
    from False have nz: "n div 10 \<noteq> 0"
      by presburger
    from False IH v d nz show ?thesis
      by (simp add: str_nat.simps [of n] digits_value_snoc)
  qed
qed

text \<open>
  C8. For the invalid outcomes of any classification, \<open>show_summary\<close> raises nothing and
  writes the total and then one line for each of the nine fields, the name of the field,
  a colon, a blank and its count, in the order telephone, height, snils,
  passport_series, university, work_experience, academic_degree, worldview, address, a
  field that never failed with the count 0; the field lines are the same on the standard
  output and in the file; the counts of the lines add up to the total written, which is
  the number of invalid records; and a count is written in decimal digits, without a
  leading zero.
\<close>

theorem show_summary_lists_all_fields:
  "show_summary (fst (parse m v)) filename =
     (let js = concat (fst (parse m v));
          c = (\<lambda>k. count_list js (lit k));
          total = c ''telephone'' + c ''height'' + c ''snils'' + c ''passport_series''
                  + c ''university'' + c ''work_experience'' + c ''academic_degree''
                  + c ''worldview'' + c ''address'';
          field_lines =
            lit ''telephone'' @ lit '': '' @ str_nat (c ''telephone'') @ [10]
            @ lit ''height'' @ lit '': '' @ str_nat (c ''height'') @ [10]
            @ lit ''snils'' @ lit '': '' @ str_nat (c ''snils'') @ [10]
            @ lit ''passport_series'' @ lit '': '' @ str_nat (c ''passport_series'') @ [10]
            @ lit ''university'' @ lit '': '' @ str_nat (c ''university'') @ [10]
            @ lit ''work_experience'' @ lit '': '' @ str_nat (c ''work_experience'') @ [10]
            @ lit ''academic_degree'' @ lit '': '' @ str_nat (c ''academic_degree'') @ [10]
            @ lit ''worldview'' @ lit '': '' @ str_nat (c ''worldview'') @ [10]
            @ lit ''address'' @ lit '': '' @ str_nat (c ''address'') @ [10]
      in Inr (if filename = []
              then Stdout
                ([10]
                 @ [1042, 1089, 1077, 1075, 1086, 32, 1086, 1096, 1080, 1073, 1086, 1082,
                    58, 32]
                 @ str_nat total @ [10] @ [10]
                 @ [1050, 1086, 1083, 1080, 1095, 1077, 1089, 1090, 1074, 1086, 32, 1086,
                    1096, 1080, 1073, 1086, 1082, 32, 1087, 1086, 32, 1090, 1080, 1087,
                    1072, 1084, 58, 32]
                 @ [10] @ field_lines)
              else File filename
                ([1042, 1089, 1077, 1075, 1086, 32, 1086, 1096, 1080, 1073, 1086, 1082,
                  58, 32]
                 @ str_nat total @ [10] @ field_lines)))
   \<and> count_list (concat (fst (parse m v))) (lit ''telephone'')
       + count_list (concat (fst (parse m v))) (lit ''height'')
       + count_list (concat (fst (parse m v))) (lit ''snils'')
       + count_list (concat (fst (parse m v))) (lit ''passport_series'')
       + count_list (concat (fst (parse m v))) (lit ''university'')
       + count_list (concat (fst (parse m v))) (lit ''work_experience'')
       + count_list (concat (fst (parse m v))) (lit ''academic_degree'')
       + count_list (concat (fst (parse m v))) (lit ''worldview'')
       + count_list (concat (fst (parse m v))) (lit ''address'')
       = length (fst (parse m v))
   \<and> str_nat 0 = lit ''0''
   \<and> str_nat n \<noteq> [] \<and> list_all is_ascii_digit (str_nat n) \<and> digits_value (str_nat n) = int n
   \<and> (n = 0 \<or> hd (str_nat n) \<noteq> 48)"
proof -
  have zero: "str_nat 0 = lit ''0''"
    by (simp add: str_nat.simps [of 0] lit_def)
  show ?thesis
    using show_summary_counts [of m v filename] str_nat_decimal [of n] zero
    by (cases "filename = []")
      (simp_all add: Let_def summary_line_def total_heading_def types_heading_def add.assoc)
qed

theorem show_summary_lists_all_fields_witness:
  "fst (parse 4300 \<lparr>entries = [invalid_entry]\<rparr>) = [[lit ''telephone'']]
   \<and> show_summary (fst (parse 4300 \<lparr>entries = [invalid_entry]\<rparr>)) [] =
       Inr (Stdout
         ([10]
          @ [1042, 1089, 1077, 1075, 1086, 32, 1086, 1096, 1080, 1073, 1086, 1082, 58, 32]
          @ lit ''1'' @ [10] @ [10]
          @ [1050, 1086, 1083, 1080, 1095, 1077, 1089, 1090, 1074, 1086, 32, 1086, 1096,
             1080, 1073, 1086, 1082, 32, 1087, 1086, 32, 1090, 1080, 1087, 1072, 1084, 58,
             32]
          @ [10]
          @ lit ''telephone: 1'' @ [10] @ lit ''height: 0'' @ [10] @ lit ''snils: 0'' @ [10]
          @ lit ''passport_series: 0'' @ [10] @ lit ''university: 0'' @ [10]
          @ lit ''work_experience: 0'' @ [10] @ lit ''academic_degree: 0'' @ [10]
          @ lit ''worldview: 0'' @ [10] @ lit ''address: 0'' @ [10]))"
proof -
  have "parse_entry 4300 invalid_entry = [lit ''telephone'']"
    using telephone_without_separators_rejected
    by (simp add: parse_entry_def invalid_entry_def valid_entry_def)
  then have p: "fst (parse 4300 \<lparr>entries = [invalid_entry]\<rparr>) = [[lit ''telephone'']]"
    by (simp add: parse_def)
  have one: "str_nat (Suc 0) = lit ''1''"
    by (subst str_nat.simps) (simp add: lit_def)
  have zero: "str_nat 0 = lit ''0''"
    by (simp add: str_nat.simps [of 0] lit_def)
  have "show_summary [[lit ''telephone'']] [] =
       Inr (Stdout
         ([10]
          @ [1042, 1089, 1077, 1075, 1086, 32, 1086, 1096, 1080, 1073, 1086, 1082, 58, 32]
          @ lit ''1'' @ [10] @ [10]
          @ [1050, 1086, 1083, 1080, 1095, 1077, 1089, 1090, 1074, 1086, 32, 1086, 1096,
             1080, 1073, 1086, 1082, 32, 1087, 1086, 32, 1090, 1080, 1087, 1072, 1084, 58,
             32]
          @ [10]
          @ lit ''telephone: 1'' @ [10] @ lit ''height: 0'' @ [10] @ lit ''snils: 0'' @ [10]
          @ lit ''passport_series: 0'' @ [10] @ lit ''university: 0'' @ [10]
          @ lit ''work_experience: 0'' @ [10] @ lit ''academic_degree: 0'' @ [10]
          @ lit ''worldview: 0'' @ [10] @ lit ''address: 0'' @ [10]))"
    using show_summary_lists_all_fields [of 4300 "\<lparr>entries = [invalid_entry]\<rparr>" "[]" 0]
    unfolding p by (simp add: Let_def one zero lit_def)
  with p show ?thesis
    by simp
qed

section \<open>Work experience\<close>

lemmas int_eval = py_int_def PyLong_FromString_def transform_decimal_and_space_to_ascii_def
  py_isspace_def is_ascii_digit_def digits_value_def lit_def Let_def


lemma scan_all_digits:
  "list_all is_ascii_digit s \<Longrightarrow> prev \<noteq> 95 \<Longrightarrow> scan_digits s prev ds = Some (ds @ s, [])"
  by (induction s arbitrary: prev ds) (auto simp: is_ascii_digit_def)

lemma py_int_digits:
  assumes "s \<noteq> []" and "list_all is_ascii_digit s" and "length s \<le> 640"
  shows "py_int m s = Some (digits_value s)"
proof -
  from assms(1) obtain c r where s: "s = c # r" by (cases s) auto
  with assms(2) have c: "48 \<le> c" "c \<le> 57" by (auto simp: is_ascii_digit_def)
  from assms(2) have "list_all (\<lambda>ch. ch < 128) s"
    by (auto simp: list_all_iff is_ascii_digit_def)
  then have t: "transform_decimal_and_space_to_ascii (c # r) = c # r"
    unfolding s by (simp add: transform_decimal_and_space_to_ascii_def)
  from c have d: "dropWhile py_isspace (c # r) = c # r"
    by (simp add: py_isspace_def)
  from assms(2) have sc: "scan_digits (c # r) 0 [] = Some (c # r, [])"
    using scan_all_digits [of s 0 "[]"] s by simp
  from assms(3) have len: "\<not> 640 < length (c # r)"
    unfolding s by simp
  have "PyLong_FromString m (c # r) = Some (digits_value (c # r))"
    unfolding PyLong_FromString_def d Let_def using c len
    by (simp add: sc del: scan_digits.simps)
  then show ?thesis
    unfolding py_int_def s t .
qed

text \<open>
  C5. \<open>check_work_experience\<close> is true exactly when \<open>int\<close> reads the string as an integer
  \<open>n\<close> with \<open>2 \<le> n < 20\<close>, and false when \<open>int\<close> raises; for a string of up to 640
  ASCII digits \<open>n\<close> is the number the digits denote; \<open>2\<close> and \<open>19\<close> are valid, \<open>1\<close> and
  \<open>20\<close> are not.
\<close>

theorem check_work_experience_range:
  "check_work_experience m s = (\<exists>n. py_int m s = Some n \<and> 2 \<le> n \<and> n < 20)
   \<and> (py_int m s = None \<longrightarrow> \<not> check_work_experience m s)
   \<and> (s \<noteq> [] \<and> list_all is_ascii_digit s \<and> length s \<le> 640 \<longrightarrow>
        check_work_experience m s = (2 \<le> digits_value s \<and> digits_value s < 20))
   \<and> check_work_experience m (lit ''2'') \<and> check_work_experience m (lit ''19'')
   \<and> \<not> check_work_experience m (lit ''1'') \<and> \<not> check_work_experience m (lit ''20'')"
proof -
  have a: "check_work_experience m s = (\<exists>n. py_int m s = Some n \<and> 2 \<le> n \<and> n < 20)"
    by (simp add: check_work_experience_def split: option.splits)
  have b: "py_int m s = None \<longrightarrow> \<not> check_work_experience m s"
    by (simp add: check_work_experience_def)
  have c: "s \<noteq> [] \<and> list_all is_ascii_digit s \<and> length s \<le> 640 \<longrightarrow>
        check_work_experience m s = (2 \<le> digits_value s \<and> digits_value s < 20)"
    by (simp add: check_work_experience_def py_int_digits)
  have d: "check_work_experience m (lit ''2'')" "check_work_experience m (lit ''19'')"
    "\<not> check_work_experience m (lit ''1'')" "\<not> check_work_experience m (lit ''20'')"
    by (simp_all add: check_work_experience_def int_eval)
  from a b c d show ?thesis
    by blast
qed

theorem check_work_experience_range_witness:
  "py_int 4300 (lit ''5.0'') = None \<and> \<not> check_work_experience 4300 (lit ''5.0'')
   \<and> lit ''7'' \<noteq> [] \<and> list_all is_ascii_digit (lit ''7'') \<and> length (lit ''7'') \<le> 640
   \<and> check_work_experience 4300 (lit ''7'')"
proof -
  have a: "py_int 4300 (lit ''5.0'') = None"
    by (simp add: int_eval)
  have b: "lit ''7'' \<noteq> [] \<and> list_all is_ascii_digit (lit ''7'') \<and> length (lit ''7'') \<le> 640"
    by (simp add: lit_def is_ascii_digit_def)
  have c: "2 \<le> digits_value (lit ''7'') \<and> digits_value (lit ''7'') < 20"
    by (simp add: lit_def digits_value_def)
  from check_work_experience_range [of 4300 "lit ''5.0''"] a
  have d: "\<not> check_work_experience 4300 (lit ''5.0'')"
    by blast
  from check_work_experience_range [of 4300 "lit ''7''"] b c
  have e: "check_work_experience 4300 (lit ''7'')"
    by blast
  from a b d e show ?thesis
    by blast
qed

section \<open>Rounding to a double\<close>

lemma binade_bounds:
  assumes "0 < a"
  shows "2 powi binade a \<le> a" and "a < 2 powi (binade a + 1)"
proof -
  obtain n d where q: "quotient_of a = (n, d)"
    by (cases "quotient_of a")
  have d: "0 < d"
    using quotient_of_denom_pos [OF q] .
  have a: "a = of_int n / of_int d"
    using quotient_of_div [OF q] .
  from assms a d have n: "0 < n"
    by (simp add: zero_less_divide_iff)
  define bn where "bn = bitlen n"
  define bd where "bd = bitlen d"
  have bn: "1 \<le> bn" and bd: "1 \<le> bd"
    using n d bitlen_eq_zero_iff [of n] bitlen_eq_zero_iff [of d] bitlen_nonneg [of n]
      bitlen_nonneg [of d]
    by (auto simp: bn_def bd_def)
  from bitlen_bounds [OF n] have "2 ^ nat (bn - 1) \<le> n" "n < 2 ^ nat bn"
    by (simp_all add: bn_def)
  then have "(of_int (2 ^ nat (bn - 1)) :: rat) \<le> of_int n" "(of_int n :: rat) < of_int (2 ^ nat bn)"
    by (simp_all only: of_int_le_iff of_int_less_iff)
  with bn have n1: "2 powi (bn - 1) \<le> (of_int n :: rat)" and n2: "(of_int n :: rat) < 2 powi bn"
    by (simp_all add: power_int_nonneg_exp)
  from bitlen_bounds [OF d] have "2 ^ nat (bd - 1) \<le> d" "d < 2 ^ nat bd"
    by (simp_all add: bd_def)
  then have "(of_int (2 ^ nat (bd - 1)) :: rat) \<le> of_int d" "(of_int d :: rat) < of_int (2 ^ nat bd)"
    by (simp_all only: of_int_le_iff of_int_less_iff)
  with bd have d1: "2 powi (bd - 1) \<le> (of_int d :: rat)" and d2: "(of_int d :: rat) < 2 powi bd"
    by (simp_all add: power_int_nonneg_exp)
  have dpos: "(0::rat) < of_int d"
    using d by simp
  have npos: "(0::rat) < of_int n"
    using n by simp
  have up: "a < 2 powi (bn - bd + 1)"
  proof -
    have "a < 2 powi bn / 2 powi (bd - 1)"
      unfolding a using n2 d1 dpos npos
      by (intro frac_less) simp_all
    also have "\<dots> = 2 powi (bn - bd + 1)"
      by (simp add: power_int_diff power_int_add field_simps)
    finally show ?thesis .
  qed
  have lo: "2 powi (bn - bd - 1) \<le> a"
  proof -
    have "2 powi (bn - 1) / 2 powi bd \<le> a"
      unfolding a using n1 d2 dpos npos
      by (intro frac_le) simp_all
    moreover have "2 powi (bn - 1) / 2 powi bd = (2::rat) powi (bn - bd - 1)"
      by (simp add: power_int_diff power_int_add field_simps)
    ultimately show ?thesis by simp
  qed
  have b: "binade a = (if 2 powi (bn - bd) \<le> a then bn - bd else bn - bd - 1)"
    by (simp add: binade_def q bn_def bd_def Let_def)
  show "2 powi binade a \<le> a"
    using lo by (simp add: b)
  show "a < 2 powi (binade a + 1)"
    using up by (simp add: b not_le)
qed

lemma two_powi_less_cancel: "(2::rat) powi m < 2 powi n \<Longrightarrow> m < n"
proof (rule ccontr)
  assume less: "(2::rat) powi m < 2 powi n" and "\<not> m < n"
  then have "n \<le> m" by simp
  then have "(2::rat) powi n \<le> 2 powi m"
    by (intro power_int_increasing) simp_all
  with less show False by simp
qed

lemma binade_unique:
  assumes "0 < a" and "2 powi e \<le> a" and "a < 2 powi (e + 1)"
  shows "binade a = e"
proof -
  from binade_bounds [OF assms(1)] assms(2,3)
  have "(2::rat) powi binade a < 2 powi (e + 1)" and "(2::rat) powi e < 2 powi (binade a + 1)"
    by linarith+
  then have "binade a < e + 1" and "e < binade a + 1"
    by (simp_all only: two_powi_less_cancel)
  then show ?thesis
    by linarith
qed

lemma round_half_even_cases:
  obtains f r where "x = of_int f + r" and "0 \<le> r" and "r < 1"
    and "round_half_even x =
          (if r < 1 / 2 then f else if 1 / 2 < r then f + 1 else if even f then f else f + 1)"
proof -
  have "x = of_int \<lfloor>x\<rfloor> + (x - of_int \<lfloor>x\<rfloor>)" by simp
  moreover have "0 \<le> x - of_int \<lfloor>x\<rfloor>" by simp
  moreover have "x - of_int \<lfloor>x\<rfloor> < 1" by linarith
  ultimately show thesis
    by (rule that) (simp add: round_half_even_def Let_def)
qed

lemma round_half_even_ge_iff:
  "k \<le> round_half_even x \<longleftrightarrow> of_int k - 1 / 2 < x \<or> (x = of_int k - 1 / 2 \<and> even k)"
proof -
  define n where "n = round_half_even x"
  obtain f r where x: "x = of_int f + r" and r: "0 \<le> r" "r < 1"
    and v: "n =
          (if r < 1 / 2 then f else if 1 / 2 < r then f + 1 else if even f then f else f + 1)"
    unfolding n_def by (rule round_half_even_cases)
  consider "k \<le> f" | "k = f + 1" | "f + 2 \<le> k"
    by linarith
  then have "k \<le> n \<longleftrightarrow> of_int k - 1 / 2 < x \<or> (x = of_int k - 1 / 2 \<and> even k)"
  proof cases
    case 1
    then have "(of_int k :: rat) \<le> of_int f" by simp
    with 1 r show ?thesis
      unfolding x v by auto
  next
    case 2
    with r show ?thesis
      unfolding x v by auto
  next
    case 3
    then have "(of_int f :: rat) + 2 \<le> of_int k"
      by (metis of_int_add of_int_le_iff of_int_numeral)
    with 3 r show ?thesis
      unfolding x v by auto
  qed
  then show ?thesis
    by (simp only: n_def)
qed

lemma round_half_even_le_iff:
  "round_half_even x \<le> k \<longleftrightarrow> x < of_int k + 1 / 2 \<or> (x = of_int k + 1 / 2 \<and> even k)"
proof -
  define n where "n = round_half_even x"
  obtain f r where x: "x = of_int f + r" and r: "0 \<le> r" "r < 1"
    and v: "n =
          (if r < 1 / 2 then f else if 1 / 2 < r then f + 1 else if even f then f else f + 1)"
    unfolding n_def by (rule round_half_even_cases)
  consider "k + 1 \<le> f" | "k = f" | "f + 1 \<le> k"
    by linarith
  then have "n \<le> k \<longleftrightarrow> x < of_int k + 1 / 2 \<or> (x = of_int k + 1 / 2 \<and> even k)"
  proof cases
    case 1
    then have "(of_int k :: rat) + 1 \<le> of_int f"
      by (metis of_int_add of_int_le_iff of_int_1)
    with 1 r show ?thesis
      unfolding x v by auto
  next
    case 2
    with r show ?thesis
      unfolding x v by auto
  next
    case 3
    then have "(of_int f :: rat) + 1 \<le> of_int k"
      by (metis of_int_add of_int_le_iff of_int_1)
    with 3 r show ?thesis
      unfolding x v by auto
  qed
  then show ?thesis
    by (simp only: n_def)
qed

lemma round_double_positive:
  assumes "0 < x"
  shows "round_double x =
     (let e = max (binade x) (- 1022);
          y = of_int (round_half_even (x / 2 powi (e - 52))) * 2 powi (e - 52)
      in if 2 ^ 1024 \<le> y then PosInf else Fin y)"
  using assms by (simp add: round_double_def Let_def)

lemma scaled_upper:
  assumes "0 < a" and "binade a \<le> e"
  shows "round_half_even (a / 2 powi (e - 52)) \<le> 2 ^ 53"
proof -
  have "a < 2 powi (binade a + 1)"
    using binade_bounds(2) [OF assms(1)] .
  also have "\<dots> \<le> 2 powi (e + 1)"
    using assms(2) by (intro power_int_increasing) simp_all
  finally have "a / 2 powi (e - 52) < 2 powi (e + 1) / 2 powi (e - 52)"
    by (simp add: divide_strict_right_mono)
  also have "2 powi (e + 1) / 2 powi (e - 52) = (2::rat) powi 53"
    by (simp flip: power_int_diff)
  finally have "a / 2 powi (e - 52) < 2 powi 53" .
  moreover define t where "t = a / 2 powi (e - 52)"
  ultimately have "t < 9007199254740992"
    by simp
  then have "t < of_int (2 ^ 53) + 1 / 2"
    by simp
  then show ?thesis
    unfolding t_def by (simp only: round_half_even_le_iff) simp
qed

lemma scaled_lower:
  assumes "2 powi e \<le> a"
  shows "2 ^ 52 \<le> round_half_even (a / 2 powi (e - 52))"
proof -
  have "(2::rat) powi 52 = 2 powi e / 2 powi (e - 52)"
    by (simp flip: power_int_diff)
  also have "\<dots> \<le> a / 2 powi (e - 52)"
    using assms by (simp add: divide_right_mono)
  finally have "2 powi 52 \<le> a / 2 powi (e - 52)" .
  moreover define t where "t = a / 2 powi (e - 52)"
  ultimately have "4503599627370496 \<le> t"
    by simp
  then have "of_int (2 ^ 52) - 1 / 2 < t"
    by simp
  then show ?thesis
    unfolding t_def by (simp only: round_half_even_ge_iff) simp
qed

lemma round_double_below:
  assumes "0 < v" and "v < 2 powi n" and "- 1021 \<le> n" and "n \<le> 1023"
  shows "\<exists>y. round_double v = Fin y \<and> y \<le> 2 powi n"
proof -
  define e where "e = max (binade v) (- 1022)"
  define y :: rat
    where "y = of_int (round_half_even (v / 2 powi (e - 52))) * 2 powi (e - 52)"
  have "(2::rat) powi binade v < 2 powi n"
    using binade_bounds(1) [OF assms(1)] assms(2) by linarith
  then have "binade v < n"
    by (rule two_powi_less_cancel)
  with assms(3) have e: "e + 1 \<le> n" and be: "binade v \<le> e"
    by (simp_all add: e_def)
  have "(of_int (round_half_even (v / 2 powi (e - 52))) :: rat) \<le> of_int (2 ^ 53)"
    using scaled_upper [OF assms(1) be] by (simp only: of_int_le_iff)
  then have "y \<le> of_int (2 ^ 53) * 2 powi (e - 52)"
    unfolding y_def by (intro mult_right_mono zero_le_power_int) simp_all
  also have "\<dots> = 2 powi (e + 1)"
    by (simp add: power_int_diff power_int_add)
  also have "\<dots> \<le> 2 powi n"
    using e by (intro power_int_increasing) simp_all
  finally have yn: "y \<le> 2 powi n" .
  also have "\<dots> \<le> 2 powi 1023"
    using assms(4) by (intro power_int_increasing) simp_all
  also have "\<dots> < (2::rat) ^ 1024"
    by simp
  finally have "\<not> 2 ^ 1024 \<le> y"
    by simp
  then have "round_double v = Fin y"
    using round_double_positive [OF assms(1)] by (simp add: Let_def e_def y_def)
  with yn show ?thesis
    by blast
qed

lemma round_double_above:
  assumes "2 powi n \<le> v" and "- 1022 \<le> n"
  shows "round_double v = PosInf \<or> (\<exists>y. round_double v = Fin y \<and> 2 powi n \<le> y)"
proof -
  have pos: "0 < v"
    using assms(1) zero_less_power_int [of "2::rat" n] by linarith
  define e where "e = max (binade v) (- 1022)"
  define y :: rat
    where "y = of_int (round_half_even (v / 2 powi (e - 52))) * 2 powi (e - 52)"
  have "(2::rat) powi n < 2 powi (binade v + 1)"
    using binade_bounds(2) [OF pos] assms(1) by linarith
  then have "n < binade v + 1"
    by (rule two_powi_less_cancel)
  with assms(2) have e: "e = binade v" and ne: "n \<le> e"
    by (simp_all add: e_def)
  have "2 powi e \<le> v"
    unfolding e using binade_bounds(1) [OF pos] .
  from scaled_lower [OF this]
  have "(of_int (2 ^ 52) :: rat) \<le> of_int (round_half_even (v / 2 powi (e - 52)))"
    by (simp only: of_int_le_iff)
  then have "of_int (2 ^ 52) * 2 powi (e - 52) \<le> y"
    unfolding y_def by (intro mult_right_mono zero_le_power_int) simp_all
  moreover have "of_int (2 ^ 52) * 2 powi (e - 52) = (2::rat) powi e"
    by (simp add: power_int_diff)
  moreover have "(2::rat) powi n \<le> 2 powi e"
    using ne by (intro power_int_increasing) simp_all
  ultimately have "2 powi n \<le> y"
    by linarith
  moreover have "round_double v = (if 2 ^ 1024 \<le> y then PosInf else Fin y)"
    using round_double_positive [OF pos] by (simp add: Let_def e_def y_def)
  ultimately show ?thesis
    by auto
qed

lemma round_double_nonpositive:
  assumes "v \<le> 0"
  shows "round_double v = NegInf \<or> (\<exists>y. round_double v = Fin y \<and> y \<le> 0)"
proof (cases "v = 0")
  case True
  then show ?thesis by (simp add: round_double_def)
next
  case False
  with assms have neg: "v < 0" by simp
  define e where "e = max (binade \<bar>v\<bar>) (- 1022)"
  define y :: rat
    where "y = of_int (round_half_even (\<bar>v\<bar> / 2 powi (e - 52))) * 2 powi (e - 52)"
  define t where "t = \<bar>v\<bar> / 2 powi (e - 52)"
  have "0 \<le> t"
    unfolding t_def by (intro divide_nonneg_pos) simp_all
  then have "of_int 0 - 1 / 2 < t"
    by simp
  then have "0 \<le> round_half_even (\<bar>v\<bar> / 2 powi (e - 52))"
    unfolding t_def by (simp only: round_half_even_ge_iff) simp
  then have "0 \<le> y"
    unfolding y_def by simp
  moreover have "round_double v = (if 2 ^ 1024 \<le> y then NegInf else Fin (- y))"
    using neg by (simp add: round_double_def Let_def e_def y_def)
  ultimately show ?thesis
    by auto
qed

lemma round_double_binade:
  assumes "2 powi e \<le> v" and "v < 2 powi (e + 1)" and "- 1022 \<le> e" and "e \<le> 1022"
  shows "round_double v = Fin (of_int (round_half_even (v / 2 powi (e - 52))) * 2 powi (e - 52))"
proof -
  have pos: "0 < v"
    using assms(1) zero_less_power_int [of "2::rat" e] by linarith
  have b: "binade v = e"
    using pos assms(1,2) by (rule binade_unique)
  define y :: rat
    where "y = of_int (round_half_even (v / 2 powi (e - 52))) * 2 powi (e - 52)"
  have be: "binade v \<le> e"
    using b by simp
  have "(of_int (round_half_even (v / 2 powi (e - 52))) :: rat) \<le> of_int (2 ^ 53)"
    using scaled_upper [OF pos be] by (simp only: of_int_le_iff)
  then have "y \<le> of_int (2 ^ 53) * 2 powi (e - 52)"
    unfolding y_def by (intro mult_right_mono zero_le_power_int) simp_all
  also have "\<dots> = 2 powi (e + 1)"
    by (simp add: power_int_diff power_int_add)
  also have "\<dots> \<le> 2 powi 1023"
    using assms(4) by (intro power_int_increasing) simp_all
  also have "\<dots> < (2::rat) ^ 1024"
    by simp
  finally have "\<not> 2 ^ 1024 \<le> y"
    by simp
  then show ?thesis
    using round_double_positive [OF pos] assms(3) by (simp add: Let_def b y_def max_def)
qed

lemma round_double_1_2:
  assumes "1 \<le> v" and "v < 2"
  shows "round_double v = Fin (of_int (round_half_even (v * 4503599627370496)) / 4503599627370496)"
  using round_double_binade [of 0 v] assms by (simp add: power_int_minus field_simps)

lemma round_double_2_4:
  assumes "2 \<le> v" and "v < 4"
  shows "round_double v = Fin (of_int (round_half_even (v * 2251799813685248)) / 2251799813685248)"
  using round_double_binade [of 1 v] assms by (simp add: power_int_minus field_simps)

lemma gt_lower_bound:
  "float_gt (round_double v) (Fin (5404319552844595 / 4503599627370496))
     \<longleftrightarrow> 10808639105689191 / 9007199254740992 \<le> v"
proof -
  consider "v \<le> 0" | "0 < v" "v < 1" | "1 \<le> v" "v < 2" | "2 \<le> v"
    by linarith
  then show ?thesis
  proof cases
    case 1
    from round_double_nonpositive [OF 1] 1 show ?thesis
      by (auto simp: float_gt_def)
  next
    case 2
    from round_double_below [of v 0] 2 obtain y where "round_double v = Fin y" "y \<le> 1"
      by auto
    with 2 show ?thesis
      by (simp add: float_gt_def)
  next
    case 3
    define n where "n = round_half_even (v * 4503599627370496)"
    have "float_gt (round_double v) (Fin (5404319552844595 / 4503599627370496))
            \<longleftrightarrow> (5404319552844595 :: rat) < of_int n"
      using round_double_1_2 [OF 3] by (simp add: float_gt_def n_def field_simps)
    also have "\<dots> \<longleftrightarrow> 5404319552844596 \<le> n"
      by (simp only: of_int_numeral_less_iff) linarith
    also have "\<dots> \<longleftrightarrow> 10808639105689191 / 9007199254740992 \<le> v"
      unfolding n_def round_half_even_ge_iff by (auto simp: field_simps)
    finally show ?thesis .
  next
    case 4
    from round_double_above [of 1 v] 4
    have "round_double v = PosInf \<or> (\<exists>y. round_double v = Fin y \<and> 2 \<le> y)"
      by simp
    with 4 show ?thesis
      by (auto simp: float_gt_def)
  qed
qed


lemma lt_upper_bound:
  "float_lt (round_double v) (Fin (4728779608739021 / 2251799813685248))
     \<longleftrightarrow> v \<le> 9457559217478041 / 4503599627370496"
proof -
  consider "v \<le> 0" | "0 < v" "v < 2" | "2 \<le> v" "v < 4" | "4 \<le> v"
    by linarith
  then show ?thesis
  proof cases
    case 1
    from round_double_nonpositive [OF 1] 1 show ?thesis
      by auto
  next
    case 2
    from round_double_below [of v 1] 2 obtain y where "round_double v = Fin y" "y \<le> 2"
      by auto
    with 2 show ?thesis
      by simp
  next
    case 3
    define n where "n = round_half_even (v * 2251799813685248)"
    have "float_lt (round_double v) (Fin (4728779608739021 / 2251799813685248))
            \<longleftrightarrow> of_int n < (4728779608739021 :: rat)"
      using round_double_2_4 [OF 3] by (simp add: n_def field_simps)
    also have "\<dots> \<longleftrightarrow> n \<le> 4728779608739020"
      by (simp only: of_int_less_numeral_iff) linarith
    also have "\<dots> \<longleftrightarrow> v \<le> 9457559217478041 / 4503599627370496"
      unfolding n_def round_half_even_le_iff by (auto simp: field_simps)
    finally show ?thesis .
  next
    case 4
    from round_double_above [of 2 v] 4
    have "round_double v = PosInf \<or> (\<exists>y. round_double v = Fin y \<and> 4 \<le> y)"
      by simp
    with 4 show ?thesis
      by auto
  qed
qed

lemma round_half_even_eqI:
  assumes "of_int k - 1 / 2 < x" and "x < of_int k + 1 / 2"
  shows "round_half_even x = k"
proof -
  from assms(1) have "k \<le> round_half_even x"
    by (simp only: round_half_even_ge_iff) simp
  moreover from assms(2) have "round_half_even x \<le> k"
    by (simp only: round_half_even_le_iff) simp
  ultimately show ?thesis
    by simp
qed

lemma float_literal_120: "float_literal (120 / 100) = Fin (5404319552844595 / 4503599627370496)"
proof -
  have "round_half_even (6 / 5 * 4503599627370496) = 5404319552844595"
    by (rule round_half_even_eqI) simp_all
  with round_double_1_2 [of "6 / 5"] show ?thesis
    by (simp add: float_literal_def)
qed

lemma float_literal_210: "float_literal (210 / 100) = Fin (4728779608739021 / 2251799813685248)"
proof -
  have "round_half_even (21 / 10 * 2251799813685248) = 4728779608739021"
    by (rule round_half_even_eqI) simp_all
  with round_double_2_4 [of "21 / 10"] show ?thesis
    by (simp add: float_literal_def)
qed

section \<open>Height\<close>

lemma parse_inf_or_nan_kind:
  assumes "parse_inf_or_nan t = Some (f, r)"
  shows "f = PosInf \<or> f = NegInf \<or> f = NaN"
  using assms
  by (auto simp add: parse_inf_or_nan_def Let_def split: prod.splits if_splits)

lemma py_float_decimal:
  assumes "decimal_value s = Some v"
  shows "py_float s = Some (round_double v)"
  using assms
  by (auto simp add: decimal_value_def py_float_def string_to_double_def Let_def
      split: if_splits option.splits prod.splits)

lemma py_float_no_decimal:
  assumes "decimal_value s = None"
  shows "py_float s = None \<or> py_float s = Some PosInf \<or> py_float s = Some NegInf
         \<or> py_float s = Some NaN"
proof (cases "py_float s")
  case None
  then show ?thesis by simp
next
  case (Some f)
  let ?u = "dropWhile py_isspace (transform_decimal_and_space_to_ascii s)"
  from Some have ne: "?u \<noteq> []"
    by (auto simp add: py_float_def Let_def split: if_splits)
  from Some ne obtain t where t: "strip_underscores (rstrip ?u) 0 = Some t"
    by (auto simp add: py_float_def Let_def split: if_splits option.splits)
  from Some ne t have sd: "string_to_double t = Some (f, [])"
    by (auto simp add: py_float_def Let_def split: if_splits option.splits prod.splits)
  have "dg_strtod t = None"
  proof (cases "dg_strtod t")
    case None
    then show ?thesis .
  next
    case (Some p)
    obtain v rest where p: "p = (v, rest)" by (cases p)
    from sd Some p have "rest = []" by (simp add: string_to_double_def)
    with assms ne t Some p show ?thesis
      by (auto simp add: decimal_value_def Let_def split: if_splits)
  qed
  with sd have "parse_inf_or_nan t = Some (f, [])" by (simp add: string_to_double_def)
  from parse_inf_or_nan_kind [OF this] Some show ?thesis by simp
qed

lemma float_literal_lower: "float_literal (6 / 5) = Fin (5404319552844595 / 4503599627370496)"
  using float_literal_120 by simp

lemma float_literal_upper: "float_literal (21 / 10) = Fin (4728779608739021 / 2251799813685248)"
  using float_literal_210 by simp

lemma check_height_double:
  "check_height s =
     (\<exists>y. py_float s = Some (Fin y)
          \<and> 5404319552844595 / 4503599627370496 < y
          \<and> y < 4728779608739021 / 2251799813685248)"
proof (cases "py_float s")
  case None
  then show ?thesis by (simp add: check_height_def)
next
  case (Some f)
  then show ?thesis
    by (cases f) (simp_all add: check_height_def float_literal_lower float_literal_upper float_gt_def)
qed

lemma check_height_decimal:
  "check_height s =
     (\<exists>v. decimal_value s = Some v
          \<and> 10808639105689191 / 9007199254740992 \<le> v
          \<and> v \<le> 9457559217478041 / 4503599627370496)"
proof (cases "decimal_value s")
  case None
  from py_float_no_decimal [OF this] None show ?thesis
    by (auto simp add: check_height_def float_literal_lower float_literal_upper float_gt_def)
next
  case (Some v)
  from py_float_decimal [OF this] Some show ?thesis
    by (simp add: check_height_def float_literal_lower float_literal_upper gt_lower_bound
        lt_upper_bound)
qed

lemma check_height_value:
  assumes "decimal_value s = Some v"
  shows "check_height s
           = (10808639105689191 / 9007199254740992 \<le> v
              \<and> v \<le> 9457559217478041 / 4503599627370496)"
  unfolding check_height_decimal assms by auto

lemmas float_eval =
  decimal_value_def py_float_def string_to_double_def parse_inf_or_nan_def dg_strtod_def
  parse_exponent_def transform_decimal_and_space_to_ascii_def py_isspace_def rstrip_def
  is_ascii_digit_def digits_value_def py_tolower_def lit_def Let_def

text \<open>
  C4, as the specification states it: a string that parses as a decimal number strictly
  between 1.20 and 2.10 is valid. The string \<open>1.2000000000000000001\<close> is read as a number
  strictly between the two bounds, but \<open>float\<close> rounds it to the double that the literal
  \<open>1.20\<close> denotes, and \<open>check_height\<close> returns \<open>False\<close>.
\<close>

theorem check_height_rounding_counterexample:
  "decimal_value (lit ''1.2000000000000000001'')
     = Some (12000000000000000001 / 10000000000000000000)
   \<and> (120 / 100 :: rat) < 12000000000000000001 / 10000000000000000000
   \<and> (12000000000000000001 / 10000000000000000000 :: rat) < 210 / 100
   \<and> py_float (lit ''1.2000000000000000001'') = Some (float_literal (120 / 100))
   \<and> \<not> check_height (lit ''1.2000000000000000001'')"
proof -
  let ?s = "lit ''1.2000000000000000001''"
  let ?v = "12000000000000000001 / 10000000000000000000 :: rat"
  have dv: "decimal_value ?s = Some ?v"
    by (simp add: float_eval)
  have "round_half_even (?v * 4503599627370496) = 5404319552844595"
    by (rule round_half_even_eqI) simp_all
  with round_double_1_2 [of ?v]
  have "round_double ?v = Fin (5404319552844595 / 4503599627370496)"
    by simp
  with py_float_decimal [OF dv]
  have pf: "py_float ?s = Some (float_literal (120 / 100))"
    by (simp add: float_literal_lower)
  have "\<not> check_height ?s"
    by (simp add: check_height_value [OF dv])
  with dv pf show ?thesis
    by simp
qed

text \<open>
  C4, amended: \<open>check_height\<close> compares the double that \<open>float\<close> returns with the doubles
  that the literals \<open>1.20\<close> and \<open>2.10\<close> denote, \<open>5404319552844595 / 2 ^ 52\<close> and
  \<open>4728779608739021 / 2 ^ 51\<close>. So a string is valid if and only if \<open>float\<close> reads a
  decimal number \<open>v\<close> from it whose nearest double lies strictly between those two, which
  is \<open>10808639105689191 / 2 ^ 53 \<le> v \<le> 9457559217478041 / 2 ^ 52\<close> (the two ends are the
  midpoints next to the bounds, and a number there is rounded away from the bound): about
  \<open>1.2000000000000000666 \<le> v \<le> 2.0999999999999998668\<close>. A string that \<open>float\<close> refuses,
  or reads as an infinity or a NaN, is invalid. The strings \<open>1.20\<close> and \<open>2.10\<close> are
  invalid, \<open>1.21\<close> and \<open>2.09\<close> are valid.
\<close>

theorem check_height_range:
  "check_height s =
     (\<exists>v. decimal_value s = Some v
          \<and> 10808639105689191 / 9007199254740992 \<le> v
          \<and> v \<le> 9457559217478041 / 4503599627370496)
   \<and> check_height s =
     (\<exists>y. py_float s = Some (Fin y)
          \<and> 5404319552844595 / 4503599627370496 < y
          \<and> y < 4728779608739021 / 2251799813685248)
   \<and> (\<forall>v. decimal_value s = Some v \<longrightarrow> py_float s = Some (round_double v))
   \<and> (decimal_value s = None \<longrightarrow>
        py_float s = None \<or> py_float s = Some PosInf \<or> py_float s = Some NegInf
        \<or> py_float s = Some NaN)
   \<and> (py_float s = None \<longrightarrow> \<not> check_height s)
   \<and> \<not> check_height (lit ''1.20'') \<and> \<not> check_height (lit ''2.10'')
   \<and> check_height (lit ''1.21'') \<and> check_height (lit ''2.09'')"
proof -
  have "decimal_value (lit ''1.20'') = Some (120 / 100)"
    by (simp add: float_eval)
  from check_height_value [OF this] have a: "\<not> check_height (lit ''1.20'')"
    by simp
  have "decimal_value (lit ''2.10'') = Some (210 / 100)"
    by (simp add: float_eval)
  from check_height_value [OF this] have b: "\<not> check_height (lit ''2.10'')"
    by simp
  have "decimal_value (lit ''1.21'') = Some (121 / 100)"
    by (simp add: float_eval)
  from check_height_value [OF this] have c: "check_height (lit ''1.21'')"
    by simp
  have "decimal_value (lit ''2.09'') = Some (209 / 100)"
    by (simp add: float_eval)
  from check_height_value [OF this] have d: "check_height (lit ''2.09'')"
    by simp
  have e: "py_float s = None \<longrightarrow> \<not> check_height s"
    by (simp add: check_height_def)
  from check_height_decimal [of s] check_height_double [of s] py_float_decimal [of s]
    py_float_no_decimal [of s] a b c d e
  show ?thesis
    by blast
qed

theorem check_height_range_witness:
  "decimal_value (lit ''1.75'') = Some (7 / 4)
   \<and> py_float (lit ''1.75'') = Some (round_double (7 / 4))
   \<and> check_height (lit ''1.75'')
   \<and> decimal_value (lit ''tall'') = None
   \<and> py_float (lit ''tall'') = None
   \<and> \<not> check_height (lit ''tall'')"
proof -
  have dv: "decimal_value (lit ''1.75'') = Some (7 / 4)"
    by (simp add: float_eval)
  have dn: "decimal_value (lit ''tall'') = None"
    by (simp add: float_eval)
  have pn: "py_float (lit ''tall'') = None"
    by (simp add: float_eval)
  have "\<exists>v. decimal_value (lit ''1.75'') = Some v
          \<and> 10808639105689191 / 9007199254740992 \<le> v
          \<and> v \<le> 9457559217478041 / 4503599627370496"
    using dv by (intro exI [of _ "7 / 4"]) simp
  with check_height_range [of "lit ''1.75''"] dv
  have "py_float (lit ''1.75'') = Some (round_double (7 / 4))" and "check_height (lit ''1.75'')"
    by blast+
  moreover from check_height_range [of "lit ''tall''"] pn
  have "\<not> check_height (lit ''tall'')"
    by blast
  ultimately show ?thesis
    using dv dn pn by simp
qed

section \<open>The patterns and a trailing newline\<close>

lemma sre_match_append_newline:
  "sre_match p pos rest \<Longrightarrow> \<not> (rest \<noteq> [] \<and> last rest = 10)
   \<Longrightarrow> sre_match p pos (rest @ [10])"
proof (induction p pos rest rule: sre_match.induct)
  case (3 p pos rest)
  then show ?case by auto
next
  case (11 hi items p pos c rest)
  then show ?case by (auto split: if_splits)
qed (auto split: if_splits)

lemma re_match_append_newline:
  "re_match p s \<Longrightarrow> \<not> (s \<noteq> [] \<and> last s = 10) \<Longrightarrow> re_match p (s @ [10])"
  unfolding re_match_def by (rule sre_match_append_newline)

text \<open>
  C3. \<open>check_snils\<close> is meant to accept exactly the strings of eleven digits (its
  docstring: a string that does not consist of eleven digits gives \<open>False\<close>). The
  pattern ends in \<open>$\<close>, which also matches before a final newline, so the code accepts
  the twelve-character string of eleven digits and a newline.
\<close>

theorem check_snils_accepts_trailing_newline:
  "check_snils (lit ''12345678901'' @ [10])
   \<and> length (lit ''12345678901'' @ [10]) = 12 \<and> \<not> isdecimal 10"
  by (simp add: check_snils_def re_eval)

text \<open>
  C6. \<open>check_telephone\<close> is meant to accept exactly the strings of the form
  \<open>+7-(DDD)-DDD-DD-DD\<close>; for the same reason the code accepts such a string followed by
  a newline.
\<close>

theorem check_telephone_accepts_trailing_newline:
  "check_telephone (lit ''+7-(123)-456-78-90'' @ [10])
   \<and> length (lit ''+7-(123)-456-78-90'' @ [10]) = 19"
  by (simp add: check_telephone_def re_eval)

text \<open>
  C10, as stated: each validator that accepts \<open>s\<close> accepts \<open>s\<close> followed by a newline, for
  every \<open>s\<close>. It fails for an \<open>s\<close> that already ends in a newline: \<open>check_snils\<close> accepts
  eleven digits and a newline, and rejects eleven digits and two newlines.
\<close>

theorem trailing_newline_counterexample:
  "check_snils (lit ''12345678901'' @ [10])
   \<and> \<not> check_snils ((lit ''12345678901'' @ [10]) @ [10])"
  by (simp add: check_snils_def re_eval)

text \<open>
  C10, amended: each of the seven validators that match a pattern, when it accepts a
  string that does not end in a newline, accepts the string followed by one newline.
\<close>

theorem trailing_newline_accepted:
  assumes "v \<in> set [check_telephone, check_snils, check_passport, check_address,
                     check_university, check_degree, check_worldview]"
    and "v s"
    and "\<not> (s \<noteq> [] \<and> last s = 10)"
  shows "v (s @ [10])"
proof -
  from assms(1) consider "v = check_telephone" | "v = check_snils" | "v = check_passport"
    | "v = check_address" | "v = check_university" | "v = check_degree"
    | "v = check_worldview"
    by auto
  then show ?thesis
    using assms(2,3) by cases (simp_all add: check_eqs re_match_append_newline)
qed

theorem trailing_newline_accepted_witness:
  "check_passport (lit ''12 34'')
   \<and> \<not> (lit ''12 34'' \<noteq> [] \<and> last (lit ''12 34'') = 10)
   \<and> check_passport (lit ''12 34'' @ [10])"
proof -
  have a: "check_passport (lit ''12 34'')"
    by (simp add: check_passport_def re_eval)
  have b: "\<not> (lit ''12 34'' \<noteq> [] \<and> last (lit ''12 34'') = 10)"
    by (simp add: lit_def)
  have "check_passport
          \<in> set [check_telephone, check_snils, check_passport, check_address,
                 check_university, check_degree, check_worldview]"
    by simp
  from trailing_newline_accepted [OF this a b] a b show ?thesis
    by blast
qed

section \<open>The alphabet of degree and worldview\<close>

text \<open>
  The reading of the specification: one or more characters, each a Latin letter, a
  Cyrillic letter (of the Russian alphabet), a hyphen or a whitespace character.
\<close>

lemma star_at_end:
  "sre_match [MAX_REPEAT 0 None cs, AT_END] pos s \<longleftrightarrow>
     list_all (in_set cs) s
     \<or> (s \<noteq> [] \<and> last s = 10 \<and> list_all (in_set cs) (butlast s))"
  by (induction s arbitrary: pos) auto

lemma plus_at_end:
  "re_match [AT_BEGINNING, MAX_REPEAT (Suc 0) None cs, AT_END] s \<longleftrightarrow>
     s \<noteq> []
     \<and> (list_all (in_set cs) s
        \<or> (last s = 10 \<and> list_all (in_set cs) (butlast s) \<and> butlast s \<noteq> []))"
  by (cases s) (auto simp: re_match_def star_at_end)

text \<open>
  C9, as stated: \<open>check_degree\<close> accepts exactly the strings of the specification's
  alphabet. It fails for a string with a tab, which is whitespace: the set of the
  pattern has the blank only.
\<close>

theorem degree_alphabet_counterexample:
  "spec_degree_accepts [97, 9, 98] \<and> \<not> check_degree [97, 9, 98]"
  by (simp add: spec_degree_accepts_def spec_degree_char_def check_degree_def re_eval)

text \<open>
  C9, amended: \<open>check_worldview\<close> and \<open>check_degree\<close> agree on every string; and a string
  that does not end in a newline and has no letter io (U+0401, U+0451) is accepted if and
  only if it is not empty and each of its characters is a Latin letter, a Cyrillic letter
  of the Russian alphabet, the hyphen or the blank. Nothing is said of a string that ends
  in a newline or has the letter io.
\<close>

theorem degree_worldview_alphabet:
  "check_worldview s = check_degree s
   \<and> (\<not> (s \<noteq> [] \<and> last s = 10) \<and> 1025 \<notin> set s \<and> 1105 \<notin> set s \<longrightarrow>
        check_degree s =
          (s \<noteq> []
           \<and> (\<forall>c\<in>set s. (97 \<le> c \<and> c \<le> 122) \<or> (65 \<le> c \<and> c \<le> 90)
                  \<or> (1040 \<le> c \<and> c \<le> 1103) \<or> c = 1025 \<or> c = 1105
                  \<or> c = 45 \<or> c = 32)))"
proof -
  have same: "check_worldview s = check_degree s"
    by (simp add: check_eqs)
  have "check_degree s =
          (s \<noteq> []
           \<and> (\<forall>c\<in>set s. (97 \<le> c \<and> c \<le> 122) \<or> (65 \<le> c \<and> c \<le> 90)
                  \<or> (1040 \<le> c \<and> c \<le> 1103) \<or> c = 1025 \<or> c = 1105
                  \<or> c = 45 \<or> c = 32))"
    if "\<not> (s \<noteq> [] \<and> last s = 10)" and "1025 \<notin> set s" and "1105 \<notin> set s"
  proof -
    from that(1) have "check_degree s =
        (s \<noteq> []
         \<and> (\<forall>c\<in>set s. (97 \<le> c \<and> c \<le> 122) \<or> (65 \<le> c \<and> c \<le> 90)
                \<or> (1072 \<le> c \<and> c \<le> 1103) \<or> (1040 \<le> c \<and> c \<le> 1071)
                \<or> c = 32 \<or> c = 45))"
      by (auto simp: check_eqs plus_at_end list_all_iff in_set_def)
    also have "\<dots> =
        (s \<noteq> []
         \<and> (\<forall>c\<in>set s. (97 \<le> c \<and> c \<le> 122) \<or> (65 \<le> c \<and> c \<le> 90)
                \<or> (1040 \<le> c \<and> c \<le> 1103) \<or> c = 1025 \<or> c = 1105
                \<or> c = 45 \<or> c = 32))"
      using that(2,3) by (intro conj_cong refl ball_cong) auto
    finally show ?thesis .
  qed
  with same show ?thesis
    by blast
qed

theorem degree_worldview_alphabet_witness:
  "\<not> (lit ''PhD'' \<noteq> [] \<and> last (lit ''PhD'') = 10)
   \<and> 1025 \<notin> set (lit ''PhD'') \<and> 1105 \<notin> set (lit ''PhD'')
   \<and> list_all (\<lambda>c. (97 \<le> c \<and> c \<le> 122) \<or> (65 \<le> c \<and> c \<le> 90)
          \<or> (1040 \<le> c \<and> c \<le> 1103) \<or> c = 1025 \<or> c = 1105
          \<or> c = 45 \<or> c = 32) (lit ''PhD'')
   \<and> check_degree (lit ''PhD'') \<and> check_worldview (lit ''PhD'')"
proof -
  have a: "\<not> (lit ''PhD'' \<noteq> [] \<and> last (lit ''PhD'') = 10)
           \<and> 1025 \<notin> set (lit ''PhD'') \<and> 1105 \<notin> set (lit ''PhD'')"
    by (simp add: lit_def)
  have b: "\<forall>c\<in>set (lit ''PhD''). (97 \<le> c \<and> c \<le> 122) \<or> (65 \<le> c \<and> c \<le> 90)
          \<or> (1040 \<le> c \<and> c \<le> 1103) \<or> c = 1025 \<or> c = 1105
          \<or> c = 45 \<or> c = 32"
    by (simp add: lit_def)
  have c: "lit ''PhD'' \<noteq> []"
    by (simp add: lit_def)
  from degree_worldview_alphabet [of "lit ''PhD''"] a b c
  have "check_degree (lit ''PhD'')" and "check_worldview (lit ''PhD'')"
    by blast+
  with a b show ?thesis
    by (simp add: list_all_iff)
qed

end
